theory Spec2Isabelle
  imports Main "HOL-Library.Word" "HOL-Library.Signed_Division"
begin

unbundle bit_operations_syntax

section \<open>Failures\<close>

text \<open>
  The builder of \<^verbatim>\<open>gpu/jit/pooling/ir_builder.cpp\<close> has no error return: a
  failure ends the build. The outcomes that do not return are values here. An integer
  division by zero is \<open>Division_by_zero\<close>, a counting loop whose step can never
  reach its bound is \<open>Loop_never_ends\<close>, and a \<^verbatim>\<open>std::vector\<close> built with a
  negative size is \<open>Length_error\<close>.
\<close>

text \<open>
  Modelled from the spec: the macros \<^verbatim>\<open>ir_assert\<close> and
  \<^verbatim>\<open>ir_error_not_expected\<close> are declared in a header of the IR utilities, not in this builder. The
  specification calls a failed precondition assertion and the error of the retry
  driver fatal: a hard failure that is surfaced at once and never retried. So a
  failed assertion is \<open>Assertion_failed\<close>, \<^verbatim>\<open>ir_error_not_expected() << msg\<close> is
  \<open>Not_expected msg\<close>, and neither returns.
\<close>

datatype error =
    Assertion_failed
  | Not_expected string
  | Division_by_zero
  | Loop_never_ends
  | Length_error

section \<open>Configuration\<close>

text \<open>
  The C++ \<^verbatim>\<open>int\<close> values are integers here, with the truncating division
  \<open>sdiv\<close> and remainder \<open>smod\<close> of C++. An \<^verbatim>\<open>int\<close> has 32 bits: the product
  of two \<^verbatim>\<open>int\<close> values in the retry driver, in the grid arithmetic of the schedule
  and in the dispatch range is the two's complement result \<open>wrap_int32\<close> of the
  exact product, which is the exact product whenever that is a 32-bit value
  (\<open>is_int32\<close>). The quotient of two 32-bit values is a 32-bit value, but for
  \<^verbatim>\<open>INT_MIN / -1\<close>.

  A \<^verbatim>\<open>grid_info_t\<close> is indexed by constant axis numbers only; it is a total map
  from the axis number to the extent of that axis.
\<close>

definition is_int32 :: "int \<Rightarrow> bool" where
  "is_int32 x = (- 2147483648 \<le> x \<and> x < 2147483648)"

definition wrap_int32 :: "int \<Rightarrow> int" where
  "wrap_int32 x = (x + 2147483648) mod 4294967296 - 2147483648"

type_synonym grid_info = "nat \<Rightarrow> int"

record exec_config =
  simd :: int
  regs :: int
  grf_size :: int

datatype alg_kind = pooling_max | pooling_avg_include_padding | pooling_avg_exclude_padding

text \<open>
  The fields of \<^verbatim>\<open>pool_conf_t\<close> that the builder reads. The input depth
  \<^verbatim>\<open>conf.id\<close> is \<open>id_dim\<close>, since \<open>id\<close> is the identity function of HOL.
\<close>

record pool_conf =
  ndims :: int
  mb :: int
  id_dim :: int
  ih :: int
  iw :: int
  od :: int
  oh :: int
  ow :: int
  kd :: int
  kh :: int
  kw :: int
  stride_d :: int
  stride_h :: int
  stride_w :: int
  f_pad :: int
  t_pad :: int
  l_pad :: int
  dd :: int
  dh :: int
  dw :: int
  alg :: alg_kind
  is_backward :: bool

record pooling_config =
  exec_cfg :: exec_config
  pool_conf :: pool_conf
  loop_grid :: grid_info
  kernel_grid :: grid_info
  thread_group_grid :: grid_info
  dims_padded :: grid_info

section \<open>The retry driver: shrinking the loop grid\<close>

text \<open>
  \<^verbatim>\<open>reduce_dim(int &dn, int &up, int scale)\<close>, lines 120 to 129. The two
  reference parameters are returned as the pair \<open>(dn, up)\<close>. The loop over the
  array of primes is \<open>reduce_dim_loop\<close>; its first equation is the code after the
  loop. The three products \<^verbatim>\<open>p * scale\<close>, \<^verbatim>\<open>up *= p\<close> and
  \<^verbatim>\<open>up *= dn / scale\<close> are products of \<^verbatim>\<open>int\<close>; a remainder or a quotient
  by zero does not return.
\<close>

definition small_primes :: "int list" where
  "small_primes = [2, 3, 5, 7, 11, 13, 17, 19, 23, 29, 31]"

fun reduce_dim_loop :: "int list \<Rightarrow> int \<Rightarrow> int \<Rightarrow> int \<Rightarrow> error + int \<times> int" where
  "reduce_dim_loop [] dn up scale =
     (if scale = 0 then Inl Division_by_zero
      else Inr (scale, wrap_int32 (up * (dn sdiv scale))))"
| "reduce_dim_loop (p # ps) dn up scale =
     (if wrap_int32 (p * scale) = 0 then Inl Division_by_zero
      else if dn smod wrap_int32 (p * scale) = 0 then Inr (dn sdiv p, wrap_int32 (up * p))
      else reduce_dim_loop ps dn up scale)"

definition reduce_dim :: "int \<Rightarrow> int \<Rightarrow> int \<Rightarrow> error + int \<times> int" where
  "reduce_dim dn up scale = reduce_dim_loop small_primes dn up scale"

text \<open>
  The body of the \<^verbatim>\<open>while\<close> loop of \<^verbatim>\<open>pooling_ir_builder_t::build\<close>, lines
  135 to 145: the copies \<open>kg\<close> and \<open>lg\<close> of the two grids are changed by
  \<open>reduce_dim\<close> and written back.
\<close>

definition shrink :: "pooling_config \<Rightarrow> error + pooling_config" where
  "shrink cfg =
     (let kg = kernel_grid cfg; lg = loop_grid cfg; sd = simd (exec_cfg cfg) in
      if lg 0 > 1 then
        (case reduce_dim (lg 0) (kg 1) 1 of
           Inl e \<Rightarrow> Inl e
         | Inr (dn, up) \<Rightarrow>
             Inr (cfg\<lparr>kernel_grid := kg(1 := up), loop_grid := lg(0 := dn)\<rparr>))
      else if sd = 0 then Inl Division_by_zero
      else if lg 1 sdiv sd > 1 then
        (case reduce_dim (lg 1) (kg 0) sd of
           Inl e \<Rightarrow> Inl e
         | Inr (dn, up) \<Rightarrow>
             Inr (cfg\<lparr>kernel_grid := kg(0 := up), loop_grid := lg(1 := dn)\<rparr>))
      else Inl (Not_expected ''minimal loop_grid too large!''))"

section \<open>The intermediate representation\<close>

text \<open>
  Modelled from the spec: \<^verbatim>\<open>type_t\<close>, \<^verbatim>\<open>expr_t\<close> and \<^verbatim>\<open>stmt_t\<close> are
  declared in the headers of the IR, not in this builder. The specification
  names element datatypes (integer and floating-point kinds), scalar and vector loads
  and stores, arithmetic and cast operations, conditional guards and a loop nest; the
  datatypes below have one constructor for each node that \<^verbatim>\<open>try_build\<close> makes.
  An element kind has a size in bytes, is an integer kind or not, and is signed or not.
\<close>

datatype type_kind = u8 | s8 | u16 | s16 | u32 | s32 | u64 | s64 | bf16 | f16 | f32 | f64

fun kind_size :: "type_kind \<Rightarrow> int" where
  "kind_size u8 = 1"
| "kind_size s8 = 1"
| "kind_size u16 = 2"
| "kind_size s16 = 2"
| "kind_size bf16 = 2"
| "kind_size f16 = 2"
| "kind_size u32 = 4"
| "kind_size s32 = 4"
| "kind_size f32 = 4"
| "kind_size u64 = 8"
| "kind_size s64 = 8"
| "kind_size f64 = 8"

fun kind_is_int :: "type_kind \<Rightarrow> bool" where
  "kind_is_int bf16 = False"
| "kind_is_int f16 = False"
| "kind_is_int f32 = False"
| "kind_is_int f64 = False"
| "kind_is_int k = True"

fun kind_is_signed :: "type_kind \<Rightarrow> bool" where
  "kind_is_signed u8 = False"
| "kind_is_signed u16 = False"
| "kind_is_signed u32 = False"
| "kind_is_signed u64 = False"
| "kind_is_signed k = True"

datatype type_t = Type_t (kind: type_kind) (elems: int)

definition scalar :: "type_t \<Rightarrow> type_t" where
  "scalar t = Type_t (kind t) 1"

definition type_size :: "type_t \<Rightarrow> int" where
  "type_size t = kind_size (kind t) * elems t"

definition is_int :: "type_t \<Rightarrow> bool" where
  "is_int t = kind_is_int (kind t)"

definition is_signed :: "type_t \<Rightarrow> bool" where
  "is_signed t = kind_is_signed (kind t)"

text \<open>
  The two floating-point constants of the builder are \<^verbatim>\<open>-INFINITY\<close> and
  \<^verbatim>\<open>0.f\<close>. An integer immediate carries its kind: a C++ \<^verbatim>\<open>int\<close> gives
  \<open>s32\<close>, the \<^verbatim>\<open>unsigned\<close> literals \<^verbatim>\<open>0x80000000\<close> give \<open>u32\<close>.
  The overloaded operators of \<^verbatim>\<open>expr_t\<close> build \<open>Binary_op\<close> nodes.
\<close>

datatype fp_imm = Neg_infinity | Zero_f

datatype op_kind = op_add | op_sub | op_mul | op_div | op_min | op_max | op_ge | op_lt | op_and

datatype expr =
    Int_imm type_kind int
  | Float_imm fp_imm
  | Var string
  | Binary_op op_kind expr expr
  | Cast type_t expr
  | Broadcast expr int
  | Load type_t string int

text \<open>
  \<open>Access\<close> is the statement of an access builder (\<^verbatim>\<open>read.stmt()\<close>,
  \<^verbatim>\<open>write.stmt()\<close>): the operation, the buffer in memory, the register buffer
  and the \<^verbatim>\<open>zero_out\<close> argument where the call gives one. \<open>Loop_nest\<close> is
  \<^verbatim>\<open>schedule.create_loop_nest\<close> around a body, \<open>Epilogue\<close> is
  \<^verbatim>\<open>create_epilogue_stmt\<close> with the scalar accumulator type, the destination
  buffer and the accumulator buffer.
\<close>

datatype send_op = send_load | send_store

datatype stmt_label = kernel_label

datatype stmt =
    Empty_stmt
  | Store string int expr
  | Stmt_seq stmt stmt
  | If_stmt expr stmt stmt
  | Loop_nest stmt
  | Access send_op string string "bool option"
  | Epilogue type_t string string
  | Stmt_group stmt_label stmt

definition is_empty_stmt :: "stmt \<Rightarrow> bool" where
  "is_empty_stmt s = (s = Empty_stmt)"

text \<open>
  Modelled from the spec: \<^verbatim>\<open>stmt_t::append\<close> is declared in the headers of the
  IR. The instruction tree is composed by appending; the empty statement is
  neutral, and two statements that are not empty make a sequence.
\<close>

fun append_stmt :: "stmt \<Rightarrow> stmt \<Rightarrow> stmt" where
  "append_stmt Empty_stmt t = t"
| "append_stmt s Empty_stmt = s"
| "append_stmt s t = Stmt_seq s t"

datatype alloc_kind = grf | global

datatype alloc = Alloc string int alloc_kind

definition src_buf :: string where "src_buf = ''src''"
definition dst_buf :: string where "dst_buf = ''dst''"
definition read_buf :: string where "read_buf = ''read''"
definition acc_buf :: string where "acc_buf = ''acc''"

section \<open>What the builder takes from its collaborators\<close>

text \<open>
  The views, the schedule, the access builders and the kernel arguments are made by
  classes of the IR library. \<^verbatim>\<open>try_build\<close> reads these results of
  theirs, one record for each build attempt:
  \<^item> \<open>need_src_or_dst_check\<close>: \<^verbatim>\<open>utils::need_src_or_dst_check\<close>;
  \<^item> \<open>src_ndims\<close>, \<open>dst_ndims\<close>: the ranks of the two user layouts;
  \<^item> \<open>var_bound\<close>, \<open>expand\<close>: \<^verbatim>\<open>schedule.var_bound\<close> and
    \<^verbatim>\<open>schedule.expand\<close> of a loop variable, by its name;
  \<^item> \<open>read_kind\<close>, \<open>write_kind\<close>: the element kinds of the register layouts;
  \<^item> \<open>read_reg_buf_size\<close>: \<^verbatim>\<open>read.reg_buf_size()\<close>;
  \<^item> \<open>src_tile_elems\<close>, \<open>dst_tile_elems\<close>: the sizes of the two maximal tiles;
  \<^item> \<open>read_tiles\<close>: the tile starts \<open>s\<close> that \<^verbatim>\<open>for_each_tile\<close> visits,
    each as \<open>(s[0], s[1], read_layout(s))\<close>;
  \<^item> \<open>ptr_args\<close>: the kernel arguments of pointer type.
\<close>

record sched =
  need_src_or_dst_check :: "bool \<Rightarrow> int \<Rightarrow> int \<Rightarrow> int \<Rightarrow> int \<Rightarrow> int \<Rightarrow> int \<Rightarrow> bool"
  src_ndims :: int
  dst_ndims :: int
  var_bound :: "string \<Rightarrow> int"
  expand :: "string \<Rightarrow> expr"
  read_kind :: type_kind
  write_kind :: type_kind
  read_reg_buf_size :: int
  src_tile_elems :: int
  dst_tile_elems :: int
  read_tiles :: "(int \<times> int \<times> int) list"
  ptr_args :: "string list"

text \<open>
  The statements that bind and inject, the passes of the lowering pipeline and the
  estimator of the peak register usage are functions given to the builder.
\<close>

record passes =
  create_bind_stmt :: "stmt \<Rightarrow> stmt"
  inject_let_stmts :: "stmt \<Rightarrow> stmt"
  inject_alloc_stmts :: "stmt \<Rightarrow> alloc list \<Rightarrow> stmt"
  inject_external_var_let :: "stmt \<Rightarrow> stmt"
  simplify :: "stmt \<Rightarrow> stmt"
  simplify_expr :: "expr \<Rightarrow> expr"
  lift_buffer_offsets_in_send :: "stmt \<Rightarrow> stmt"
  inject_send :: "stmt \<Rightarrow> stmt"
  split_wide_stores :: "stmt \<Rightarrow> stmt"
  fix_int32_overflow :: "stmt \<Rightarrow> stmt"
  eliminate_common_subexprs :: "stmt \<Rightarrow> int \<Rightarrow> stmt"
  optimize_alloc_let :: "stmt \<Rightarrow> stmt"
  get_peak_regs :: "stmt \<Rightarrow> int \<Rightarrow> int"

section \<open>The kernel-body assembler\<close>

subsection \<open>Counting loops and statement lists\<close>

text \<open>
  \<^verbatim>\<open>for (int i = 0; i < n; i += step)\<close>: the values of \<open>i\<close>. With a step that
  is not positive and a positive bound the loop of the source never ends.
\<close>

function count_up :: "int \<Rightarrow> int \<Rightarrow> int \<Rightarrow> int list" where
  "count_up i n step = (if i < n \<and> 0 < step then i # count_up (i + step) n step else [])"
  by pat_completeness auto
termination
  by (relation "measure (\<lambda>(i, n, step). nat (n - i))") auto

declare count_up.simps [simp del]

definition for_offsets :: "int \<Rightarrow> int \<Rightarrow> error + int list" where
  "for_offsets n step =
     (if 0 < n \<and> step \<le> 0 then Inl Loop_never_ends else Inr (count_up 0 n step))"

text \<open>\<open>s = s.append(store_t::make(buf, off, v))\<close> for each offset of a list.\<close>

definition append_stores :: "stmt \<Rightarrow> string \<Rightarrow> int list \<Rightarrow> (int \<Rightarrow> expr) \<Rightarrow> stmt" where
  "append_stores s0 buf offs v = fold (\<lambda>off s. append_stmt s (Store buf off (v off))) offs s0"

subsection \<open>Flags and types, lines 189 to 195 and 419 to 431\<close>

definition check_iw :: "sched \<Rightarrow> pool_conf \<Rightarrow> bool" where
  "check_iw sc conf = need_src_or_dst_check sc (\<not> is_backward conf)
     (ow conf) (iw conf) (kw conf) (l_pad conf) (stride_w conf) (dw conf)"

definition check_ih :: "sched \<Rightarrow> pool_conf \<Rightarrow> bool" where
  "check_ih sc conf = need_src_or_dst_check sc (\<not> is_backward conf)
     (oh conf) (ih conf) (kh conf) (t_pad conf) (stride_h conf) (dh conf)"

definition check_id :: "sched \<Rightarrow> pool_conf \<Rightarrow> bool" where
  "check_id sc conf = need_src_or_dst_check sc (\<not> is_backward conf)
     (od conf) (id_dim conf) (kd conf) (f_pad conf) (stride_d conf) (dd conf)"

definition check_idhw :: "sched \<Rightarrow> pool_conf \<Rightarrow> bool" where
  "check_idhw sc conf = (check_id sc conf \<or> check_ih sc conf \<or> check_iw sc conf)"

definition is_identity :: "pool_conf \<Rightarrow> bool" where
  "is_identity conf = (kd conf * kh conf * kw conf \<le> 1)"

definition is_max :: "pool_conf \<Rightarrow> bool" where
  "is_max conf = (alg conf = pooling_max)"

definition is_pad :: "pool_conf \<Rightarrow> bool" where
  "is_pad conf = (alg conf = pooling_avg_include_padding)"

definition read_type :: "sched \<Rightarrow> pooling_config \<Rightarrow> type_t" where
  "read_type sc cfg = Type_t (read_kind sc) (simd (exec_cfg cfg))"

text \<open>The initial value of \<^verbatim>\<open>acc_type\<close>, lines 426 to 428.\<close>

definition acc_type_init :: "sched \<Rightarrow> pooling_config \<Rightarrow> type_t" where
  "acc_type_init sc cfg =
     (if \<not> is_int (read_type sc cfg)
      then (if is_max (pool_conf cfg) then read_type sc cfg
            else Type_t f32 (simd (exec_cfg cfg)))
      else Type_t s32 (simd (exec_cfg cfg)))"

definition acc_sc_size :: "sched \<Rightarrow> pooling_config \<Rightarrow> int" where
  "acc_sc_size sc cfg = type_size (scalar (acc_type_init sc cfg))"

definition acc_size :: "sched \<Rightarrow> pooling_config \<Rightarrow> int" where
  "acc_size sc cfg =
     (let lg = loop_grid cfg in acc_sc_size sc cfg * lg 4 * lg 3 * lg 2 * lg 1 * lg 0)"

subsection \<open>Initial values, lines 445 to 484\<close>

text \<open>The value stored into every accumulator vector before the loop nest.\<close>

definition acc_init_value :: "sched \<Rightarrow> pooling_config \<Rightarrow> expr" where
  "acc_init_value sc cfg =
     (let sd = simd (exec_cfg cfg) in
      if \<not> is_int (read_type sc cfg)
      then Cast (acc_type_init sc cfg)
             (Broadcast (Float_imm (if is_max (pool_conf cfg) then Neg_infinity else Zero_f)) sd)
      else
        (let is_neg = (is_max (pool_conf cfg) \<and> is_signed (read_type sc cfg)) in
         Broadcast (Cast (Type_t s32 1) (Int_imm u32 (if is_neg then 0x80000000 else 0))) sd))"

text \<open>
  The value that \<^verbatim>\<open>fill_stmt\<close> stores into the read buffer. For an integer source
  the \<^verbatim>\<open>switch\<close> over \<open>mult\<close> has three cases and an assertion.
\<close>

definition fill_value :: "sched \<Rightarrow> pooling_config \<Rightarrow> error + expr" where
  "fill_value sc cfg =
     (let sd = simd (exec_cfg cfg) in
      if \<not> is_int (read_type sc cfg)
      then Inr (Cast (read_type sc cfg)
             (Broadcast (Float_imm (if is_max (pool_conf cfg) then Neg_infinity else Zero_f)) sd))
      else
        (let is_neg = (is_max (pool_conf cfg) \<and> is_signed (read_type sc cfg));
             mult = 4 sdiv kind_size (read_kind sc)
         in if mult = 1 then
              Inr (Broadcast (Cast (Type_t s32 1) (Int_imm u32 (if is_neg then 0x80000000 else 0)))
                     (sd sdiv mult))
            else if mult = 2 then
              Inr (Broadcast (Cast (Type_t s32 1) (Int_imm u32 (if is_neg then 0x80008000 else 0)))
                     (sd sdiv mult))
            else if mult = 4 then
              Inr (Broadcast (Cast (Type_t s32 1) (Int_imm u32 (if is_neg then 0x80808080 else 0)))
                     (sd sdiv mult))
            else Inl Assertion_failed))"

subsection \<open>The statements of the reduction, lines 443 to 522\<close>

definition read_stmt :: stmt where
  "read_stmt = Access send_load src_buf read_buf (Some False)"

definition write_stmt :: stmt where
  "write_stmt = Access send_store dst_buf read_buf None"

definition init_stmt :: "sched \<Rightarrow> pooling_config \<Rightarrow> int list \<Rightarrow> stmt" where
  "init_stmt sc cfg offs = append_stores Empty_stmt acc_buf offs (\<lambda>i. acc_init_value sc cfg)"

text \<open>
  The bodies of the two lambdas given to \<^verbatim>\<open>for_each_tile\<close>, lines 452 to 458
  with 478 to 483 and lines 486 to 497: the store of the fill value and the store of
  the reduction for the tile that starts at \<open>s\<close>.
\<close>

definition fill_store :: "sched \<Rightarrow> expr \<Rightarrow> int \<times> int \<times> int \<Rightarrow> stmt" where
  "fill_store sc v = (\<lambda>(s0, s1, l). Store read_buf (l * kind_size (read_kind sc)) v)"

definition fill_stmt :: "sched \<Rightarrow> expr \<Rightarrow> stmt" where
  "fill_stmt sc v = fold (\<lambda>t s. append_stmt s (fill_store sc v t)) (read_tiles sc) Empty_stmt"

definition reduce_store :: "sched \<Rightarrow> pooling_config \<Rightarrow> int \<times> int \<times> int \<Rightarrow> stmt" where
  "reduce_store sc cfg = (\<lambda>(s0, s1, l).
     (let off_l = l * kind_size (read_kind sc);
          off_a = (s0 * loop_grid cfg 1 + s1) * acc_sc_size sc cfg;
          load = Cast (acc_type_init sc cfg) (Load (read_type sc cfg) read_buf off_l);
          acc = Load (acc_type_init sc cfg) acc_buf off_a;
          op = Binary_op (if is_max (pool_conf cfg) then op_max else op_add) acc load
      in Store acc_buf off_a op))"

definition compute_stmt :: "sched \<Rightarrow> pooling_config \<Rightarrow> stmt" where
  "compute_stmt sc cfg =
     fold (\<lambda>t s. append_stmt s (reduce_store sc cfg t)) (read_tiles sc) read_stmt"

definition loop_body :: "sched \<Rightarrow> pooling_config \<Rightarrow> expr \<Rightarrow> stmt" where
  "loop_body sc cfg fv =
     (if check_idhw sc (pool_conf cfg)
      then append_stmt (fill_stmt sc fv) (compute_stmt sc cfg)
      else compute_stmt sc cfg)"

text \<open>The lambda \<^verbatim>\<open>dim\<close>, lines 505 to 509, and the divisor \<^verbatim>\<open>filter\<close>.\<close>

definition dim :: "expr \<Rightarrow> int \<Rightarrow> int \<Rightarrow> int \<Rightarrow> int \<Rightarrow> expr" where
  "dim o_e s p k i =
     (if k \<le> 1 then Int_imm s32 1
      else Binary_op op_sub
             (Binary_op op_min
                (Binary_op op_add
                   (Binary_op op_sub (Binary_op op_mul o_e (Int_imm s32 s)) (Int_imm s32 p))
                   (Int_imm s32 k))
                (Int_imm s32 i))
             (Binary_op op_max
                (Binary_op op_sub (Binary_op op_mul o_e (Int_imm s32 s)) (Int_imm s32 p))
                (Int_imm s32 0)))"

definition dhw :: "sched \<Rightarrow> pool_conf \<Rightarrow> expr" where
  "dhw sc conf =
     Binary_op op_mul
       (Binary_op op_mul
          (dim (expand sc ''od'') (stride_d conf) (f_pad conf) (kd conf) (id_dim conf))
          (dim (expand sc ''oh'') (stride_h conf) (t_pad conf) (kh conf) (ih conf)))
       (dim (expand sc ''ow'') (stride_w conf) (l_pad conf) (kw conf) (iw conf))"

definition filter_expr :: "sched \<Rightarrow> pooling_config \<Rightarrow> expr" where
  "filter_expr sc cfg =
     (let conf = pool_conf cfg in
      Broadcast
        (if \<not> is_pad conf \<and> check_idhw sc conf
         then Cast (Type_t f32 1) (dhw sc conf)
         else Int_imm s32 (kd conf * kh conf * kw conf))
        (simd (exec_cfg cfg)))"

definition normalize_value :: "sched \<Rightarrow> pooling_config \<Rightarrow> int \<Rightarrow> expr" where
  "normalize_value sc cfg i =
     Binary_op op_div
       (Cast (Type_t f32 (simd (exec_cfg cfg))) (Load (acc_type_init sc cfg) acc_buf i))
       (filter_expr sc cfg)"

text \<open>
  Lines 433 to 523: the statement, the accumulator buffer, the accumulator type and
  the allocation of the accumulator (none on the identity path, where the read buffer
  is the accumulator).
\<close>

definition reduction :: "sched \<Rightarrow> pooling_config \<Rightarrow> error + stmt \<times> string \<times> type_t \<times> alloc list" where
  "reduction sc cfg =
     (let conf = pool_conf cfg; sd = simd (exec_cfg cfg) in
      if is_identity conf then Inr (read_stmt, read_buf, read_type sc cfg, [])
      else if sd = 0 then Inl Division_by_zero
      else if acc_size sc cfg smod sd \<noteq> 0 then Inl Assertion_failed
      else
        (case for_offsets (acc_size sc cfg) (sd * acc_sc_size sc cfg) of
           Inl e \<Rightarrow> Inl e
         | Inr offs \<Rightarrow>
             (case fill_value sc cfg of
                Inl e \<Rightarrow> Inl e
              | Inr fv \<Rightarrow>
                  (let stmt = append_stmt (init_stmt sc cfg offs) (Loop_nest (loop_body sc cfg fv));
                       allocs = [Alloc acc_buf (acc_size sc cfg) grf]
                   in if is_max conf then Inr (stmt, acc_buf, acc_type_init sc cfg, allocs)
                      else Inr (append_stores stmt acc_buf offs (normalize_value sc cfg),
                                acc_buf, Type_t f32 sd, allocs)))))"

subsection \<open>Epilogue, batch guard and exit guard, lines 525 to 554\<close>

definition epilogue_stmt :: "string \<Rightarrow> type_t \<Rightarrow> stmt" where
  "epilogue_stmt abuf atype = Epilogue (scalar atype) dst_buf abuf"

text \<open>
  Lines 534 to 543, applied to the statement \<open>stmt\<close> built so far. The offsets are
  those of \<^verbatim>\<open>for (int i = 0; i < acc_size / acc_sc_size; i += simd)\<close>.
\<close>

definition zero_bcast :: "sched \<Rightarrow> pooling_config \<Rightarrow> expr" where
  "zero_bcast sc cfg = Cast (read_type sc cfg) (Broadcast (Int_imm s32 0) (simd (exec_cfg cfg)))"

definition stop_stmt :: "sched \<Rightarrow> pooling_config \<Rightarrow> int list \<Rightarrow> stmt" where
  "stop_stmt sc cfg offs =
     fold (\<lambda>i s. append_stmt s
             (Store read_buf (i * type_size (scalar (read_type sc cfg))) (zero_bcast sc cfg)))
       offs Empty_stmt"

definition stop_cond :: "sched \<Rightarrow> pooling_config \<Rightarrow> expr" where
  "stop_cond sc cfg =
     Broadcast (Binary_op op_ge (expand sc ''mb'') (Int_imm s32 (mb (pool_conf cfg))))
       (simd (exec_cfg cfg))"

definition mb_guard :: "sched \<Rightarrow> pooling_config \<Rightarrow> stmt \<Rightarrow> error + stmt" where
  "mb_guard sc cfg stmt =
     (if dims_padded cfg 0 > mb (pool_conf cfg) then
        (case for_offsets (acc_size sc cfg sdiv acc_sc_size sc cfg) (simd (exec_cfg cfg)) of
           Inl e \<Rightarrow> Inl e
         | Inr offs \<Rightarrow>
             Inr (If_stmt (stop_cond sc cfg) (append_stmt (stop_stmt sc cfg offs) write_stmt) stmt))
      else Inr stmt)"

text \<open>
  \<^verbatim>\<open>loop_bound_counter_t\<close>, lines 150 to 164: every variable is replaced by its
  bound minus one, and the simplified result has to be an integer immediate.
\<close>

fun lbc_mutate :: "(string \<Rightarrow> int) \<Rightarrow> expr \<Rightarrow> expr" where
  "lbc_mutate vb (Var v) = Int_imm s32 (vb v - 1)"
| "lbc_mutate vb (Binary_op op a b) = Binary_op op (lbc_mutate vb a) (lbc_mutate vb b)"
| "lbc_mutate vb (Cast t e) = Cast t (lbc_mutate vb e)"
| "lbc_mutate vb (Broadcast e n) = Broadcast (lbc_mutate vb e) n"
| "lbc_mutate vb e = e"

definition lbc_count :: "passes \<Rightarrow> sched \<Rightarrow> expr \<Rightarrow> error + int" where
  "lbc_count ps sc e =
     (case simplify_expr ps (lbc_mutate (var_bound sc) e) of
        Int_imm k n \<Rightarrow> Inr n
      | _ \<Rightarrow> Inl Assertion_failed)"

definition lt_extent :: "expr \<Rightarrow> int \<Rightarrow> expr" where
  "lt_extent e n = Binary_op op_lt e (Int_imm s32 n)"

definition and_exit :: "expr \<Rightarrow> expr option \<Rightarrow> expr option" where
  "and_exit c ec = (case ec of None \<Rightarrow> Some c | Some e \<Rightarrow> Some (Binary_op op_and c e))"

definition exit_cond :: "passes \<Rightarrow> sched \<Rightarrow> pool_conf \<Rightarrow> error + expr option" where
  "exit_cond ps sc conf =
     (case lbc_count ps sc (expand sc ''ow'') of
        Inl e \<Rightarrow> Inl e
      | Inr cw \<Rightarrow>
     (case lbc_count ps sc (expand sc ''oh'') of
        Inl e \<Rightarrow> Inl e
      | Inr ch \<Rightarrow>
     (case lbc_count ps sc (expand sc ''od'') of
        Inl e \<Rightarrow> Inl e
      | Inr cd \<Rightarrow>
          (let e0 = (if cw \<ge> ow conf then Some (lt_extent (expand sc ''ow'') (ow conf)) else None);
               e1 = (if ch \<ge> oh conf then and_exit (lt_extent (expand sc ''oh'') (oh conf)) e0 else e0);
               e2 = (if cd \<ge> od conf then and_exit (lt_extent (expand sc ''od'') (od conf)) e1 else e1)
           in Inr e2))))"

definition exit_guard :: "passes \<Rightarrow> sched \<Rightarrow> pooling_config \<Rightarrow> stmt \<Rightarrow> error + stmt" where
  "exit_guard ps sc cfg stmt =
     (case exit_cond ps sc (pool_conf cfg) of
        Inl e \<Rightarrow> Inl e
      | Inr None \<Rightarrow> Inr stmt
      | Inr (Some c) \<Rightarrow> Inr (If_stmt (Broadcast c (simd (exec_cfg cfg))) stmt Empty_stmt))"

subsection \<open>The whole attempt, lines 166 to 578\<close>

text \<open>
  Modelled from the spec: \<^verbatim>\<open>utils::div_up\<close> is declared in the header of the
  utilities. The specification splits a loop over the quotient rounded up,
  \<open>ceil(bound / factor)\<close>; for the \<^verbatim>\<open>int\<close> arguments of the builder that is the
  truncating quotient of \<open>a + b - 1\<close> by \<open>b\<close>, and a divisor of zero does not
  return.
\<close>

definition div_up :: "int \<Rightarrow> int \<Rightarrow> error + int" where
  "div_up a b = (if b = 0 then Inl Division_by_zero else Inr (wrap_int32 (a + b - 1) sdiv b))"

text \<open>
  \<^verbatim>\<open>odhw_to_schedule\<close>, lines 263 to 335, for the index \<open>s0_idx\<close> of its third
  argument (none for an empty expression): what it does to the schedule is not
  modelled, the integer arithmetic on the grids that can fail is. The two assertions
  on the indices hold for the three calls that the builder makes.
\<close>

definition odhw_to_schedule :: "pooling_config \<Rightarrow> nat option \<Rightarrow> error + unit" where
  "odhw_to_schedule cfg s0_idx =
     (let lg = loop_grid cfg; kg = kernel_grid cfg; tg = thread_group_grid cfg;
          dims = dims_padded cfg in
      case s0_idx of
        None \<Rightarrow> Inr ()
      | Some i \<Rightarrow>
          (let s0_tlg_unroll = lg i;
               s0_unroll = wrap_int32 (s0_tlg_unroll * tg (i - 2));
               s0_full = wrap_int32 (s0_unroll * kg (i - 2))
           in if dims i > s0_full then Inr ()
              else (case div_up s0_full 2 of
                      Inl e \<Rightarrow> Inl e
                    | Inr half \<Rightarrow>
                        if dims i \<le> half
                        then (case div_up s0_full (dims i) of
                                Inl e \<Rightarrow> Inl e
                              | Inr s1_ext \<Rightarrow> Inr ())
                        else Inr ())))"

text \<open>
  \<^verbatim>\<open>kdhw_to_schedule\<close>, lines 347 to 363: what it does to the schedule is not
  modelled, its failure is.
\<close>

definition kdhw_to_schedule :: "sched \<Rightarrow> pooling_config \<Rightarrow> string \<Rightarrow> nat \<Rightarrow> error + unit" where
  "kdhw_to_schedule sc cfg k k_idx =
     (let k_dim = loop_grid cfg k_idx in
      if k_dim = var_bound sc k then Inr ()
      else if k_dim < var_bound sc k then Inr ()
      else Inl (Not_expected ''k_dim > var_bound; this is wrong''))"

text \<open>The statement before it is bound, injected and lowered: lines 166 to 554.\<close>

definition assemble :: "passes \<Rightarrow> sched \<Rightarrow> pooling_config \<Rightarrow> error + stmt \<times> alloc list" where
  "assemble ps sc cfg =
     (let sd = simd (exec_cfg cfg) in
      if src_ndims sc \<noteq> dst_ndims sc then Inl Assertion_failed
      else
     (case odhw_to_schedule cfg None of Inl e \<Rightarrow> Inl e | Inr _ \<Rightarrow>
     (case odhw_to_schedule cfg (Some 4) of Inl e \<Rightarrow> Inl e | Inr _ \<Rightarrow>
     (case kdhw_to_schedule sc cfg ''kd'' 5 of Inl e \<Rightarrow> Inl e | Inr _ \<Rightarrow>
     (case kdhw_to_schedule sc cfg ''kh'' 6 of Inl e \<Rightarrow> Inl e | Inr _ \<Rightarrow>
     (case kdhw_to_schedule sc cfg ''kw'' 7 of Inl e \<Rightarrow> Inl e | Inr _ \<Rightarrow>
      if src_tile_elems sc \<noteq> sd then Inl Assertion_failed
      else if dst_tile_elems sc \<noteq> sd then Inl Assertion_failed
      else
     (case reduction sc cfg of Inl e \<Rightarrow> Inl e | Inr (stmt, abuf, atype, acc_allocs) \<Rightarrow>
     (case mb_guard sc cfg (append_stmt stmt (epilogue_stmt abuf atype)) of
        Inl e \<Rightarrow> Inl e
      | Inr guarded \<Rightarrow>
     (case exit_guard ps sc cfg guarded of
        Inl e \<Rightarrow> Inl e
      | Inr body \<Rightarrow>
          Inr (body,
               map (\<lambda>v. Alloc v 0 global) (ptr_args sc)
                 @ [Alloc read_buf (read_reg_buf_size sc) grf] @ acc_allocs))))))))))"

text \<open>Lines 556 to 570: binding, injection and the fixed lowering pipeline.\<close>

definition lower :: "passes \<Rightarrow> pooling_config \<Rightarrow> stmt \<Rightarrow> alloc list \<Rightarrow> stmt" where
  "lower ps cfg stmt allocs =
     (let exec = exec_cfg cfg;
          s1 = create_bind_stmt ps stmt;
          s2 = inject_let_stmts ps s1;
          s3 = inject_alloc_stmts ps s2 allocs;
          s4 = inject_external_var_let ps s3;
          s5 = simplify ps s4;
          s6 = lift_buffer_offsets_in_send ps s5;
          s7 = inject_send ps s6;
          s8 = split_wide_stores ps s7;
          s9 = fix_int32_overflow ps s8;
          s10 = eliminate_common_subexprs ps s9 (regs exec * grf_size exec);
          s11 = simplify ps s10;
          s12 = optimize_alloc_let ps s11
      in Stmt_group kernel_label s12)"

definition kernel_body :: "passes \<Rightarrow> sched \<Rightarrow> pooling_config \<Rightarrow> error + stmt" where
  "kernel_body ps sc cfg =
     (case assemble ps sc cfg of
        Inl e \<Rightarrow> Inl e
      | Inr (stmt, allocs) \<Rightarrow> Inr (lower ps cfg stmt allocs))"

definition try_build :: "passes \<Rightarrow> sched \<Rightarrow> pooling_config \<Rightarrow> error + stmt" where
  "try_build ps sc cfg =
     (case kernel_body ps sc cfg of
        Inl e \<Rightarrow> Inl e
      | Inr stmt \<Rightarrow>
          (let peak = get_peak_regs ps stmt (grf_size (exec_cfg cfg)) in
           Inr (if peak > regs (exec_cfg cfg) then Empty_stmt else stmt)))"

section \<open>The retry driver\<close>

text \<open>
  \<^verbatim>\<open>pooling_ir_builder_t::nd_range\<close>, lines 580 to 590; a \<^verbatim>\<open>size_t\<close> is a word
  of 64 bits, and \<^verbatim>\<open>tg[0] * simd\<close> is a product of \<^verbatim>\<open>int\<close> that is converted
  afterwards. The pair is \<open>(global, local)\<close>.
\<close>

type_synonym nd_range_t = "64 word list \<times> 64 word list"

definition nd_range :: "pooling_config \<Rightarrow> nd_range_t" where
  "nd_range cfg =
     (let kg = kernel_grid cfg; tg = thread_group_grid cfg;
          local0 = (word_of_int (wrap_int32 (tg 0 * simd (exec_cfg cfg))) :: 64 word);
          local1 = (word_of_int (tg 1) :: 64 word);
          local2 = (word_of_int (tg 2) :: 64 word)
      in ([word_of_int (kg 0) * local0, word_of_int (kg 1) * local1, word_of_int (kg 2) * local2],
          [local0, local1, local2]))"

text \<open>
  \<^verbatim>\<open>pooling_ir_builder_t::build\<close>, lines 131 to 148. The members
  \<^verbatim>\<open>cfg_mutable_\<close> and \<^verbatim>\<open>ki_mutable_\<close> (of which the range is kept) are the
  state; \<open>scf\<close> gives the collaborators' results for a configuration. The result is
  the statement with the final state.
\<close>

function build :: "passes \<Rightarrow> (pooling_config \<Rightarrow> sched) \<Rightarrow> pooling_config \<Rightarrow> nd_range_t
    \<Rightarrow> error + stmt \<times> pooling_config \<times> nd_range_t" where
  "build ps scf cfg ndr =
     (case try_build ps (scf cfg) cfg of
        Inl e \<Rightarrow> Inl e
      | Inr stmt \<Rightarrow>
          if \<not> is_empty_stmt stmt then Inr (stmt, cfg, ndr)
          else (case shrink cfg of
                  Inl e \<Rightarrow> Inl e
                | Inr cfg' \<Rightarrow> build ps scf cfg' (nd_range cfg')))"
  by pat_completeness auto

section \<open>The mask of a post-op view\<close>

text \<open>
  \<^verbatim>\<open>pooling_post_op_view_mapper_t::normalize_mask\<close>, lines 97 to 115, with
  \<^verbatim>\<open>dims_to_3d\<close>, lines 92 to 95. The reduction \<^verbatim>\<open>spatials_to_3d\<close> belongs to the
  tensor library; \<open>sp3d\<close> is what it does to the extents of a layout. A mask is
  a word of 32 bits, and \<^verbatim>\<open>1 << i\<close> is \<open>push_bit i 1\<close>; a shift by 32 or more
  has no defined result in C++, and the properties below are stated for ranks up to 32.
\<close>

definition dims_to_3d :: "(int list \<Rightarrow> int list) \<Rightarrow> int list \<Rightarrow> int list" where
  "dims_to_3d sp3d dims = sp3d dims"

definition dummy_step :: "32 word \<Rightarrow> nat \<Rightarrow> int list \<Rightarrow> int list" where
  "dummy_step orig_mask = (\<lambda>i d. if orig_mask AND push_bit i 1 \<noteq> 0 then d[i := 2] else d)"

definition dummy_dims :: "nat \<Rightarrow> 32 word \<Rightarrow> int list" where
  "dummy_dims n orig_mask = fold (dummy_step orig_mask) [0..<n] (replicate n 1)"

definition collect_mask :: "int list \<Rightarrow> nat \<Rightarrow> 32 word" where
  "collect_mask cvt_dims n =
     fold (\<lambda>i m. if cvt_dims ! i = 2 then m OR push_bit i 1 else m) [0..<n] 0"

definition normalize_mask :: "(int list \<Rightarrow> int list) \<Rightarrow> int \<Rightarrow> int \<Rightarrow> 32 word \<Rightarrow> error + 32 word" where
  "normalize_mask sp3d cp_ndims ndims_field orig_mask =
     (if cp_ndims < 3 then Inl Assertion_failed
      else
        (let orig_ndims = 2 + ndims_field in
         if orig_ndims < 0 then Inl Length_error
         else
           (let cvt_dims = dims_to_3d sp3d (dummy_dims (nat orig_ndims) orig_mask) in
            if int (length cvt_dims) \<noteq> cp_ndims then Inl Assertion_failed
            else Inr (collect_mask cvt_dims (nat cp_ndims)))))"

section \<open>Notions of the specification\<close>

text \<open>
  The dispatched work of a configuration: the product of the kernel grid and of the
  loop grid (three and eight axes).
\<close>

definition dispatched_work :: "pooling_config \<Rightarrow> int" where
  "dispatched_work cfg =
     (let kg = kernel_grid cfg; lg = loop_grid cfg in
      kg 0 * kg 1 * kg 2 * (lg 0 * lg 1 * lg 2 * lg 3 * lg 4 * lg 5 * lg 6 * lg 7))"


definition loop_grid_product :: "pooling_config \<Rightarrow> int" where
  "loop_grid_product cfg = loop_grid cfg 0 * loop_grid cfg 1"

definition is_prime :: "int \<Rightarrow> bool" where
  "is_prime p = (1 < p \<and> (\<forall>d\<in>{2..<p}. \<not> d dvd p))"

text \<open>
  The first prime of the list that can be peeled from \<open>dn\<close> while \<open>scale\<close> still
  divides what is left, the factor that a shrink moves, and the component it leaves.
\<close>

definition first_prime :: "int \<Rightarrow> int \<Rightarrow> int option" where
  "first_prime dn scale = find (\<lambda>p. p * scale dvd dn) small_primes"

definition peeled :: "int \<Rightarrow> int \<Rightarrow> int" where
  "peeled dn scale = (case first_prime dn scale of Some p \<Rightarrow> p | None \<Rightarrow> dn div scale)"

definition remaining :: "int \<Rightarrow> int \<Rightarrow> int" where
  "remaining dn scale = (case first_prime dn scale of Some p \<Rightarrow> dn div p | None \<Rightarrow> scale)"

text \<open>
  Modelled from the spec: the meaning of the integer operators of the IR is not
  given by this builder. An immediate is its value, a variable is read from the
  environment, and the five arithmetic operators are those of the integers.
\<close>

fun eval_int :: "(string \<Rightarrow> int) \<Rightarrow> expr \<Rightarrow> int option" where
  "eval_int env (Int_imm k n) = Some n"
| "eval_int env (Var v) = Some (env v)"
| "eval_int env (Binary_op op a b) =
     (case (eval_int env a, eval_int env b) of
        (Some x, Some y) \<Rightarrow>
          (if op = op_add then Some (x + y)
           else if op = op_sub then Some (x - y)
           else if op = op_mul then Some (x * y)
           else if op = op_min then Some (min x y)
           else if op = op_max then Some (max x y)
           else None)
      | _ \<Rightarrow> None)"
| "eval_int env e = None"

text \<open>
  The overlap of one axis in the words of the specification: the clamped window
  \<open>min(o * s - p + k, i) - max(o * s - p, 0)\<close>, and 1 for a kernel extent of at
  most 1.
\<close>

definition axis_overlap :: "int \<Rightarrow> int \<Rightarrow> int \<Rightarrow> int \<Rightarrow> int \<Rightarrow> int" where
  "axis_overlap o_pos s p k i =
     (if k \<le> 1 then 1 else min (o_pos * s - p + k) i - max (o_pos * s - p) 0)"

text \<open>
  The direct count of the window positions of one axis that fall inside the input:
  position \<open>j\<close> of a window of extent \<open>k\<close> at output position \<open>o_pos\<close> reads the
  input at \<open>o_pos * s - p + j\<close>.
\<close>

definition overlap_count :: "int \<Rightarrow> int \<Rightarrow> int \<Rightarrow> int \<Rightarrow> int \<Rightarrow> int" where
  "overlap_count o_pos s p k i =
     int (length (filter (\<lambda>j. 0 \<le> o_pos * s - p + j \<and> o_pos * s - p + j < i) [0..k - 1]))"

text \<open>The statements of a sequence, in order.\<close>

fun flat :: "stmt \<Rightarrow> stmt list" where
  "flat Empty_stmt = []"
| "flat (Stmt_seq a b) = flat a @ flat b"
| "flat s = [s]"

text \<open>Whether a statement holds a loop nest, and whether it loads from a buffer.\<close>

fun has_loop_nest :: "stmt \<Rightarrow> bool" where
  "has_loop_nest (Loop_nest b) = True"
| "has_loop_nest (Stmt_seq a b) = (has_loop_nest a \<or> has_loop_nest b)"
| "has_loop_nest (If_stmt c a b) = (has_loop_nest a \<or> has_loop_nest b)"
| "has_loop_nest (Stmt_group l b) = has_loop_nest b"
| "has_loop_nest s = False"

fun loads_from :: "string \<Rightarrow> stmt \<Rightarrow> bool" where
  "loads_from buf (Access op m r z) = (op = send_load \<and> m = buf)"
| "loads_from buf (Loop_nest b) = loads_from buf b"
| "loads_from buf (Stmt_seq a b) = (loads_from buf a \<or> loads_from buf b)"
| "loads_from buf (If_stmt c a b) = (loads_from buf a \<or> loads_from buf b)"
| "loads_from buf (Stmt_group l b) = loads_from buf b"
| "loads_from buf s = False"

text \<open>
  The elements of integer kind \<open>k\<close> that the four bytes of a double word hold, and
  the elements that a store of a constant vector of the builder writes.
\<close>

datatype lane = Lane_int int | Lane_fp fp_imm

definition conv_word :: "bool \<Rightarrow> 'a::len word \<Rightarrow> int" where
  "conv_word sg w = (if sg then sint w else uint w)"

definition dword_elems :: "type_kind \<Rightarrow> 32 word \<Rightarrow> int list" where
  "dword_elems k w =
     (if kind_size k = 1 then
        map (\<lambda>j. conv_word (kind_is_signed k) (ucast (drop_bit (8 * j) w) :: 8 word)) [0..<4]
      else if kind_size k = 2 then
        map (\<lambda>j. conv_word (kind_is_signed k) (ucast (drop_bit (16 * j) w) :: 16 word)) [0..<2]
      else [conv_word (kind_is_signed k) w])"

fun stored_elems :: "type_kind \<Rightarrow> expr \<Rightarrow> lane list option" where
  "stored_elems k (Cast t (Broadcast (Float_imm c) n)) = Some (replicate (nat n) (Lane_fp c))"
| "stored_elems k (Broadcast (Cast t (Int_imm u32 v)) n) =
     Some (concat (replicate (nat n) (map Lane_int (dword_elems k (word_of_int v)))))"
| "stored_elems k e = None"

text \<open>
  The identity of the reduction in the words of the specification: negative
  infinity for a floating-point maximum, the most negative value of a signed integer
  kind for its maximum, zero for a sum and for the maximum of an unsigned integer kind.
\<close>

definition most_negative :: "type_kind \<Rightarrow> int" where
  "most_negative k = (if kind_is_signed k then - (2 ^ (nat (8 * kind_size k) - 1)) else 0)"

definition reduction_identity :: "bool \<Rightarrow> type_kind \<Rightarrow> lane" where
  "reduction_identity mx k =
     (if \<not> kind_is_int k then Lane_fp (if mx then Neg_infinity else Zero_f)
      else Lane_int (if mx then most_negative k else 0))"

text \<open>
  Modelled from the spec: what the statements of a reduction do to the registers of
  one thread is not given by this builder. The specification speaks of loads and
  stores of vectors, of casts, of a source read that is masked at the boundary, and of
  a window whose source elements are all masked out. A register buffer is a map from
  the byte offset to the byte. An element of an integer kind is stored in two's
  complement, the low byte first; of the floating-point values only the two
  constants of the builder are modelled, by their bit patterns.
\<close>

type_synonym reg_file = "string \<Rightarrow> int \<Rightarrow> 8 word"

definition bytes_of :: "nat \<Rightarrow> int \<Rightarrow> 8 word list" where
  "bytes_of n v = map (\<lambda>j. word_of_int (v div 256 ^ j)) [0..<n]"

definition int_of_bytes :: "8 word list \<Rightarrow> int" where
  "int_of_bytes bs = foldr (\<lambda>b a. uint b + 256 * a) bs 0"

definition fp_bits :: "type_kind \<Rightarrow> fp_imm \<Rightarrow> int" where
  "fp_bits k c =
     (case c of
        Zero_f \<Rightarrow> 0
      | Neg_infinity \<Rightarrow>
          (if k = f16 then 0xFC00 else if k = bf16 then 0xFF80
           else if k = f32 then 0xFF800000 else 0xFFF0000000000000))"

definition wrap_kind :: "type_kind \<Rightarrow> int \<Rightarrow> int" where
  "wrap_kind k v =
     (let b = 2 ^ nat (8 * kind_size k) in
      if kind_is_signed k then (v + b div 2) mod b - b div 2 else v mod b)"

definition encode_lane :: "type_kind \<Rightarrow> lane \<Rightarrow> 8 word list option" where
  "encode_lane k l =
     (case l of
        Lane_int v \<Rightarrow> if kind_is_int k then Some (bytes_of (nat (kind_size k)) v) else None
      | Lane_fp c \<Rightarrow>
          if kind_is_int k then None else Some (bytes_of (nat (kind_size k)) (fp_bits k c)))"

definition decode_lane :: "type_kind \<Rightarrow> 8 word list \<Rightarrow> lane option" where
  "decode_lane k bs =
     (let u = int_of_bytes bs in
      if kind_is_int k then Some (Lane_int (if kind_is_signed k then wrap_kind k u else u))
      else if u = fp_bits k Neg_infinity then Some (Lane_fp Neg_infinity)
      else if u = 0 then Some (Lane_fp Zero_f)
      else None)"

text \<open>
  A cast between integer kinds wraps, a cast between floating-point kinds keeps the
  constant. The maximum and the sum of two lanes of the same sort; the sum of
  integers wraps in the kind of the operands.
\<close>

definition cast_lane :: "type_kind \<Rightarrow> lane \<Rightarrow> lane option" where
  "cast_lane k l =
     (case l of
        Lane_int v \<Rightarrow> if kind_is_int k then Some (Lane_int (wrap_kind k v)) else None
      | Lane_fp c \<Rightarrow> if kind_is_int k then None else Some (Lane_fp c))"

definition lane_binop :: "type_kind \<Rightarrow> op_kind \<Rightarrow> lane \<Rightarrow> lane \<Rightarrow> lane option" where
  "lane_binop k op a b =
     (case (a, b) of
        (Lane_int x, Lane_int y) \<Rightarrow>
          if op = op_max then Some (Lane_int (max x y))
          else if op = op_add then Some (Lane_int (wrap_kind k (x + y)))
          else None
      | (Lane_fp x, Lane_fp y) \<Rightarrow>
          if op = op_max then Some (Lane_fp (if x = Neg_infinity then y else x))
          else if op = op_add
          then Some (Lane_fp (if x = Neg_infinity \<or> y = Neg_infinity then Neg_infinity else Zero_f))
          else None
      | _ \<Rightarrow> None)"

definition read_bytes :: "(int \<Rightarrow> 8 word) \<Rightarrow> int \<Rightarrow> nat \<Rightarrow> 8 word list" where
  "read_bytes f off n = map (\<lambda>j. f (off + int j)) [0..<n]"

definition write_bytes :: "(int \<Rightarrow> 8 word) \<Rightarrow> int \<Rightarrow> 8 word list \<Rightarrow> int \<Rightarrow> 8 word" where
  "write_bytes f off bs x =
     (if off \<le> x \<and> x < off + int (length bs) then bs ! nat (x - off) else f x)"

text \<open>
  The value of a vector expression: the kind of its elements and its lanes. A load
  reads consecutive elements of its type from the byte offset; a cast keeps the
  number of lanes; the two operands of a binary operation have the same kind and
  the same number of lanes.
\<close>

fun eval_vec :: "reg_file \<Rightarrow> expr \<Rightarrow> (type_kind \<times> lane list) option" where
  "eval_vec m (Int_imm k v) = Some (k, [Lane_int (wrap_kind k v)])"
| "eval_vec m (Float_imm c) = Some (f32, [Lane_fp c])"
| "eval_vec m (Var v) = None"
| "eval_vec m (Cast t e) =
     (case eval_vec m e of
        None \<Rightarrow> None
      | Some (k, ls) \<Rightarrow>
          if int (length ls) = elems t
          then map_option (Pair (kind t)) (those (map (cast_lane (kind t)) ls))
          else None)"
| "eval_vec m (Broadcast e n) =
     (case eval_vec m e of
        None \<Rightarrow> None
      | Some (k, ls) \<Rightarrow> Some (k, concat (replicate (nat n) ls)))"
| "eval_vec m (Load t buf off) =
     map_option (Pair (kind t))
       (those (map (\<lambda>j. decode_lane (kind t)
                       (read_bytes (m buf) (off + int j * kind_size (kind t)) (nat (kind_size (kind t)))))
                 [0..<nat (elems t)]))"
| "eval_vec m (Binary_op op a b) =
     (case (eval_vec m a, eval_vec m b) of
        (Some (ka, la), Some (kb, lb)) \<Rightarrow>
          if ka = kb \<and> length la = length lb
          then map_option (Pair ka) (those (map2 (lane_binop ka op) la lb))
          else None
      | _ \<Rightarrow> None)"

text \<open>
  The machine that runs a reduction: the number of iterations of the loop nest, the
  bytes that the load of the source delivers into the read buffer in each iteration
  (none for a byte that is masked out), and the size of the read buffer. A masked
  byte keeps what the buffer holds when the load was built with \<^verbatim>\<open>zero_out\<close>
  false, and becomes zero otherwise. The statements of a reduction are stores,
  sequences, the loop nest and the load; a store to memory leaves the registers as
  they are, and a conditional or an epilogue has no meaning here.
\<close>

record machine =
  iterations :: nat
  delivered :: "nat \<Rightarrow> int \<Rightarrow> 8 word option"
  load_size :: int

fun exec_stmt :: "machine \<Rightarrow> nat \<Rightarrow> stmt \<Rightarrow> reg_file \<Rightarrow> reg_file option" where
  "exec_stmt M it Empty_stmt m = Some m"
| "exec_stmt M it (Store buf off e) m =
     (case eval_vec m e of
        None \<Rightarrow> None
      | Some (k, ls) \<Rightarrow>
          (case those (map (encode_lane k) ls) of
             None \<Rightarrow> None
           | Some bss \<Rightarrow> Some (m(buf := write_bytes (m buf) off (concat bss)))))"
| "exec_stmt M it (Stmt_seq a b) m =
     (case exec_stmt M it a m of None \<Rightarrow> None | Some m' \<Rightarrow> exec_stmt M it b m')"
| "exec_stmt M it (Loop_nest b) m =
     fold (\<lambda>i r. case r of None \<Rightarrow> None | Some m' \<Rightarrow> exec_stmt M i b m')
       [0..<iterations M] (Some m)"
| "exec_stmt M it (Access op g r z) m =
     (if op = send_load
      then Some (m(r := (\<lambda>x. case delivered M it x of
                            Some b \<Rightarrow> b
                          | None \<Rightarrow>
                              if z = Some False then m r x
                              else if 0 \<le> x \<and> x < load_size M then 0 else m r x)))
      else Some m)"
| "exec_stmt M it (Stmt_group l b) m = exec_stmt M it b m"
| "exec_stmt M it (If_stmt c a b) m = None"
| "exec_stmt M it (Epilogue t d a) m = None"

section \<open>A worked configuration\<close>

text \<open>
  A max pooling with a window of three by three over signed bytes, on a device with
  vectors of sixteen lanes. The collaborators are the simplest that fit: the schedule
  expands a variable to itself, the passes leave a statement as it is, and the
  estimator charges sixteen registers for every store.
\<close>

fun count_stores :: "stmt \<Rightarrow> nat" where
  "count_stores (Store b i v) = 1"
| "count_stores (Stmt_seq a b) = count_stores a + count_stores b"
| "count_stores (If_stmt c a b) = count_stores a + count_stores b"
| "count_stores (Loop_nest b) = count_stores b"
| "count_stores (Stmt_group l b) = count_stores b"
| "count_stores s = 0"

definition ex_exec :: exec_config where
  "ex_exec = \<lparr>simd = 16, regs = 128, grf_size = 32\<rparr>"

definition ex_conf :: pool_conf where
  "ex_conf = \<lparr>ndims = 5, mb = 2, id_dim = 1, ih = 5, iw = 5, od = 1, oh = 5, ow = 5,
     kd = 1, kh = 3, kw = 3, stride_d = 1, stride_h = 1, stride_w = 1,
     f_pad = 0, t_pad = 1, l_pad = 1, dd = 0, dh = 0, dw = 0,
     alg = pooling_max, is_backward = False\<rparr>"

definition ex_cfg :: pooling_config where
  "ex_cfg = \<lparr>exec_cfg = ex_exec, pool_conf = ex_conf,
     loop_grid = (\<lambda>i. 1)(0 := 4, 1 := 32),
     kernel_grid = (\<lambda>i. 1)(2 := 25),
     thread_group_grid = (\<lambda>i. 1),
     dims_padded = (\<lambda>i. 1)(0 := 4, 1 := 32, 3 := 5, 4 := 5)\<rparr>"

definition ex_sched :: "pooling_config \<Rightarrow> sched" where
  "ex_sched c = \<lparr>need_src_or_dst_check = (\<lambda>fwd o_ext i k p s d. 0 < p \<or> i \<le> (o_ext - 1) * s - p + (k - 1) * (1 + d)),
     src_ndims = 5, dst_ndims = 5,
     var_bound = (\<lambda>v. 4),
     expand = Var,
     read_kind = s8, write_kind = s8,
     read_reg_buf_size = 64,
     src_tile_elems = simd (exec_cfg c), dst_tile_elems = simd (exec_cfg c),
     read_tiles = [(0, 0, 0), (0, 16, 16)],
     ptr_args = [src_buf, dst_buf]\<rparr>"

definition ex_passes :: passes where
  "ex_passes = \<lparr>create_bind_stmt = (\<lambda>s. s), inject_let_stmts = (\<lambda>s. s),
     inject_alloc_stmts = (\<lambda>s a. s), inject_external_var_let = (\<lambda>s. s),
     simplify = (\<lambda>s. s), simplify_expr = (\<lambda>e. e),
     lift_buffer_offsets_in_send = (\<lambda>s. s), inject_send = (\<lambda>s. s),
     split_wide_stores = (\<lambda>s. s), fix_int32_overflow = (\<lambda>s. s),
     eliminate_common_subexprs = (\<lambda>s n. s), optimize_alloc_let = (\<lambda>s. s),
     get_peak_regs = (\<lambda>s g. 16 * int (count_stores s))\<rparr>"

definition ex_cfg2 :: pooling_config where
  "ex_cfg2 = ex_cfg\<lparr>kernel_grid := (kernel_grid ex_cfg)(1 := 2), loop_grid := (loop_grid ex_cfg)(0 := 2)\<rparr>"

text \<open>Two loop grids on the same device: three vectors on axis 1, and \<open>37 * 37\<close> on axis 0.\<close>

definition ex_cfg48 :: pooling_config where
  "ex_cfg48 = ex_cfg\<lparr>loop_grid := (\<lambda>i. 1)(1 := 48)\<rparr>"

definition ex_cfg1369 :: pooling_config where
  "ex_cfg1369 = ex_cfg\<lparr>loop_grid := (\<lambda>i. 1)(0 := 1369, 1 := 16)\<rparr>"



text \<open>
  The grid that the driver reaches from the worked configuration, the same pooling
  with a window of one element, and an average pooling that excludes the padding.
\<close>

definition ex_cfg3 :: pooling_config where
  "ex_cfg3 = ex_cfg\<lparr>kernel_grid := (kernel_grid ex_cfg)(1 := 4), loop_grid := (loop_grid ex_cfg)(0 := 1)\<rparr>"

definition ex_cfg_id :: pooling_config where
  "ex_cfg_id = ex_cfg\<lparr>pool_conf := ex_conf\<lparr>kh := 1, kw := 1\<rparr>\<rparr>"


text \<open>
  A reduction of four extents to five: two spatial axes become three, the new one
  of extent 1 in front.
\<close>

definition ex_sp3d :: "int list \<Rightarrow> int list" where
  "ex_sp3d d = (case d of [n, c, h, w] \<Rightarrow> [n, c, 1, h, w] | _ \<Rightarrow> d)"

text \<open>The statements of a list, run one after the other.\<close>

definition exec_seq :: "machine \<Rightarrow> nat \<Rightarrow> stmt list \<Rightarrow> reg_file option \<Rightarrow> reg_file option" where
  "exec_seq M it ss r =
     fold (\<lambda>t r. case r of None \<Rightarrow> None | Some m \<Rightarrow> exec_stmt M it t m) ss r"

text \<open>
  A machine on which every source element is masked out in all of three
  iterations, and registers that hold the byte 85 everywhere.
\<close>

definition ex_machine :: machine where
  "ex_machine = \<lparr>iterations = 3, delivered = (\<lambda>it x. None), load_size = 64\<rparr>"

definition ex_regs :: reg_file where
  "ex_regs = (\<lambda>b x. 85)"

text \<open>The measure of the retry loop: the two loop-grid components that it shrinks.\<close>

definition shrink_measure :: "pooling_config \<Rightarrow> nat" where
  "shrink_measure cfg = nat (loop_grid cfg 0) + nat \<bar>loop_grid cfg 1\<bar>"

section \<open>Properties of the retry driver\<close>

subsection \<open>Truncating division and products of 32 bits\<close>

lemma wrap_int32_id: "is_int32 x \<Longrightarrow> wrap_int32 x = x"
  by (simp add: wrap_int32_def is_int32_def)

lemma wrap_int32_small: "- 2147483648 \<le> x \<Longrightarrow> x < 2147483648 \<Longrightarrow> wrap_int32 x = x"
  by (rule wrap_int32_id) (simp add: is_int32_def)

lemma sdiv_pos: "0 \<le> a \<Longrightarrow> 0 < b \<Longrightarrow> (a::int) sdiv b = a div b"
  by (simp add: signed_divide_int_def sgn_if)

lemma smod_pos: "0 \<le> a \<Longrightarrow> 0 < b \<Longrightarrow> (a::int) smod b = a mod b"
  by (simp add: smod_mod_positive)

lemma abs_sdiv_pos: "0 < p \<Longrightarrow> \<bar>(a::int) sdiv p\<bar> = \<bar>a\<bar> div p"
  by (simp add: signed_divide_int_def sgn_if abs_mult pos_imp_zdiv_nonneg_iff)

lemma sdiv_gt1_abs: assumes "1 < (dn::int) sdiv scale" shows "\<bar>scale\<bar> < \<bar>dn\<bar>"
proof -
  define q where "q = \<bar>dn\<bar> div \<bar>scale\<bar>"
  have "dn sdiv scale \<le> q"
    by (simp add: q_def signed_divide_int_def sgn_if pos_imp_zdiv_nonneg_iff)
  with assms have two: "2 \<le> q" by simp
  then have nz: "0 < \<bar>scale\<bar>" by (auto simp: q_def)
  have "\<bar>scale\<bar> * q \<le> \<bar>dn\<bar>"
    unfolding q_def
    using nz mult_div_mod_eq [of "\<bar>scale\<bar>" "\<bar>dn\<bar>"] pos_mod_sign [of "\<bar>scale\<bar>" "\<bar>dn\<bar>"]
    by linarith
  moreover have "\<bar>scale\<bar> * 2 \<le> \<bar>scale\<bar> * q"
    using two nz by (intro mult_left_mono) auto
  ultimately show ?thesis using nz by linarith
qed

lemma sdiv_gt1_pos: assumes "1 \<le> scale" "1 < (dn::int) sdiv scale" shows "1 \<le> dn"
proof (rule ccontr)
  assume "\<not> 1 \<le> dn"
  then have "dn \<le> 0" by simp
  then have "dn sdiv scale \<le> 0" using assms(1)
    by (simp add: signed_divide_int_def sgn_if pos_imp_zdiv_nonneg_iff)
  with assms show False by simp
qed

lemma sdiv_gt1_twice: assumes "1 \<le> scale" "1 < (dn::int) sdiv scale" shows "2 * scale \<le> dn"
proof -
  from assms have "\<bar>scale\<bar> < \<bar>dn\<bar>" by (intro sdiv_gt1_abs)
  from assms have pos: "1 \<le> dn" by (rule sdiv_gt1_pos)
  with assms have "2 \<le> dn div scale" by (simp add: sdiv_pos)
  then have "scale * 2 \<le> scale * (dn div scale)"
    using assms(1) by (intro mult_left_mono) auto
  moreover have "scale * (dn div scale) \<le> dn"
    using assms(1) mult_div_mod_eq [of scale dn] pos_mod_sign [of scale dn] by linarith
  ultimately show ?thesis by linarith
qed

lemma pos_cofactor:
  fixes a k :: int
  assumes "1 \<le> a * k" "0 \<le> a"
  shows "1 \<le> k"
proof (rule ccontr)
  assume "\<not> 1 \<le> k"
  then have "k \<le> 0" by simp
  with assms(2) have "a * k \<le> 0" by (rule mult_nonneg_nonpos)
  with assms(1) show False by simp
qed

lemma factor_is_int32:
  fixes x k :: int
  assumes "1 \<le> k" "is_int32 (x * k)"
  shows "is_int32 x"
proof (cases "0 \<le> x")
  case True
  then have "x * 1 \<le> x * k" using assms(1) by (intro mult_left_mono) auto
  then have "x \<le> x * k" by simp
  with assms(2) True show ?thesis unfolding is_int32_def by linarith
next
  case False
  then have "x * k \<le> x * 1" using assms(1) by (intro mult_left_mono_neg) auto
  then have "x * k \<le> x" by simp
  with assms(2) False show ?thesis unfolding is_int32_def by linarith
qed

subsection \<open>One call of \<open>reduce_dim\<close>\<close>

lemma small_primes_bounds: "\<forall>p\<in>set small_primes. 2 \<le> p \<and> p \<le> 31"
  by (simp add: small_primes_def)

lemma wrap_prime_scale:
  assumes "1 \<le> p" "p \<le> 31" "1 \<le> scale" "31 * scale < 2147483648"
  shows "wrap_int32 (p * scale) = p * scale \<and> 0 < p * scale"
proof -
  have "p * scale \<le> 31 * scale" using assms by (intro mult_right_mono) auto
  with assms have lt: "p * scale < 2147483648" by linarith
  have pos: "0 < p * scale" using assms by simp
  then have "- 2147483648 \<le> p * scale" by linarith
  then have "wrap_int32 (p * scale) = p * scale" using lt by (rule wrap_int32_small)
  with pos show ?thesis by simp
qed

lemma reduce_dim_loop_Inl: "reduce_dim_loop ps dn up scale = Inl e \<Longrightarrow> e = Division_by_zero"
proof (induction ps)
  case Nil
  then show ?case by (simp split: if_splits)
next
  case (Cons p ps)
  then show ?case by (simp split: if_splits)
qed

lemma reduce_dim_Inl: "reduce_dim dn up scale = Inl e \<Longrightarrow> e = Division_by_zero"
  unfolding reduce_dim_def by (rule reduce_dim_loop_Inl)

lemma reduce_dim_loop_axis0:
  assumes "reduce_dim_loop ps dn up 1 = Inr (dn', up')" "1 < dn" "\<forall>p\<in>set ps. 2 \<le> p \<and> p \<le> 31"
  shows "1 \<le> dn' \<and> dn' < dn"
  using assms
proof (induction ps)
  case Nil
  then show ?case by simp
next
  case (Cons p ps)
  from Cons.prems have p: "2 \<le> p" "p \<le> 31" by simp_all
  then have w: "wrap_int32 (p * 1) = p" by (simp add: wrap_int32_small)
  show ?case
  proof (cases "dn smod p = 0")
    case True
    with Cons.prems w p have r: "dn' = dn sdiv p" by simp
    from True Cons.prems p have d: "p dvd dn" by (simp add: smod_pos dvd_eq_mod_eq_0)
    then obtain k where k: "dn = p * k" by (auto elim: dvdE)
    with Cons.prems p have kpos: "1 \<le> k"
      by (intro pos_cofactor [of p k]) simp_all
    have q: "dn sdiv p = k" using k p Cons.prems by (simp add: sdiv_pos)
    have "k < p * k" using kpos p by simp
    with r q k kpos show ?thesis by simp
  next
    case False
    with Cons w p show ?thesis by simp
  qed
qed

lemma reduce_dim_loop_abs:
  assumes "reduce_dim_loop ps dn up scale = Inr (dn', up')" "1 < dn sdiv scale" "\<forall>p\<in>set ps. 2 \<le> p"
  shows "\<bar>dn'\<bar> < \<bar>dn\<bar>"
  using assms
proof (induction ps)
  case Nil
  then show ?case by (auto simp: sdiv_gt1_abs split: if_splits)
next
  case (Cons p ps)
  show ?case
  proof (cases "wrap_int32 (p * scale) \<noteq> 0 \<and> dn smod wrap_int32 (p * scale) = 0")
    case True
    with Cons.prems have r: "dn' = dn sdiv p" by simp
    from Cons.prems have p: "2 \<le> p" by simp
    from Cons.prems have "dn \<noteq> 0" by auto
    then have "\<bar>dn\<bar> div p < \<bar>dn\<bar>" using p by (simp add: int_div_less_self)
    with r p show ?thesis by (simp add: abs_sdiv_pos)
  next
    case False
    with Cons show ?thesis by (auto split: if_splits)
  qed
qed

lemma reduce_dim_loop_pos:
  assumes "reduce_dim_loop ps dn up scale = Inr (dn', up')" "1 \<le> scale" "1 < dn sdiv scale"
    "\<forall>p\<in>set ps. 2 \<le> p \<and> p \<le> 31"
  shows "1 \<le> dn'"
  using assms
proof (induction ps)
  case Nil
  then show ?case by (auto split: if_splits)
next
  case (Cons p ps)
  show ?case
  proof (cases "wrap_int32 (p * scale) \<noteq> 0 \<and> dn smod wrap_int32 (p * scale) = 0")
    case True
    with Cons.prems have r: "dn' = dn sdiv p" by simp
    from Cons.prems have p: "2 \<le> p" "p \<le> 31" by simp_all
    from Cons.prems have tw: "2 * scale \<le> dn" by (intro sdiv_gt1_twice) auto
    have "p \<le> dn"
    proof (cases "16 \<le> scale")
      case True
      with tw p show ?thesis by simp
    next
      case False
      with Cons.prems p have w: "wrap_int32 (p * scale) = p * scale \<and> 0 < p * scale"
        by (intro wrap_prime_scale) auto
      with True tw Cons.prems have "p * scale dvd dn" by (simp add: smod_pos dvd_eq_mod_eq_0)
      then obtain k0 where "dn = p * scale * k0" by (auto elim: dvdE)
      then obtain k where k: "dn = p * (scale * k)" by (auto simp: mult.assoc)
      from tw Cons.prems have "1 \<le> dn" by linarith
      then have "1 \<le> p * (scale * k)" by (simp only: k)
      then have "1 \<le> scale * k" using p by (intro pos_cofactor [of p "scale * k"]) auto
      then have "p * 1 \<le> p * (scale * k)" using p by (intro mult_left_mono) auto
      then show ?thesis by (simp only: k mult_1_right)
    qed
    then have "0 < dn div p" using p by (simp add: pos_imp_zdiv_pos_iff)
    then have "1 \<le> dn div p" by simp
    with r p tw Cons.prems show ?thesis by (simp add: sdiv_pos)
  next
    case False
    with Cons show ?thesis by (auto split: if_splits)
  qed
qed

lemma reduce_dim_loop_find:
  assumes "1 \<le> dn" "1 \<le> scale" "31 * scale < 2147483648" "\<forall>p\<in>set ps. 1 \<le> p \<and> p \<le> 31"
  shows "reduce_dim_loop ps dn up scale =
     Inr (case find (\<lambda>p. p * scale dvd dn) ps of
        Some p \<Rightarrow> (dn div p, wrap_int32 (up * p))
      | None \<Rightarrow> (scale, wrap_int32 (up * (dn div scale))))"
  using assms
proof (induction ps)
  case Nil
  then show ?case by (simp add: sdiv_pos)
next
  case (Cons p ps)
  then have p: "0 < p" by auto
  from Cons.prems have w: "wrap_int32 (p * scale) = p * scale \<and> 0 < p * scale"
    by (intro wrap_prime_scale) auto
  with Cons.prems have "dn smod wrap_int32 (p * scale) = 0 \<longleftrightarrow> p * scale dvd dn"
    by (simp add: smod_pos dvd_eq_mod_eq_0)
  moreover have "dn sdiv p = dn div p" using p Cons.prems by (simp add: sdiv_pos)
  ultimately show ?case using Cons w by simp
qed

lemma reduce_dim_peeled:
  assumes "1 \<le> dn" "1 \<le> scale" "31 * scale < 2147483648"
  shows "reduce_dim dn up scale = Inr (remaining dn scale, wrap_int32 (up * peeled dn scale))"
proof -
  have b: "\<forall>p\<in>set small_primes. 1 \<le> p \<and> p \<le> 31" using small_primes_bounds by auto
  show ?thesis
    unfolding reduce_dim_def reduce_dim_loop_find [OF assms b] peeled_def remaining_def first_prime_def
    by (simp split: option.splits)
qed

lemma peeled_remaining:
  assumes "1 \<le> dn" "1 \<le> scale" "scale dvd dn"
  shows "remaining dn scale * peeled dn scale = dn \<and> scale \<le> remaining dn scale
     \<and> scale dvd remaining dn scale \<and> 1 \<le> remaining dn scale"
proof (cases "first_prime dn scale")
  case None
  with assms show ?thesis by (simp add: peeled_def remaining_def)
next
  case (Some p)
  then have pin: "p \<in> set small_primes" and pd: "p * scale dvd dn"
    unfolding first_prime_def by (auto simp: find_Some_iff)
  from pin small_primes_bounds have p: "2 \<le> p" by auto
  from pd obtain k where k: "dn = p * scale * k" by (auto elim: dvdE)
  with assms p have kpos: "1 \<le> k"
    by (intro pos_cofactor [of "p * scale" k]) simp_all
  have q: "dn div p = scale * k" using k p by simp
  have "scale * 1 \<le> scale * k" using kpos assms by (intro mult_left_mono) auto
  then have ge: "scale \<le> scale * k" by simp
  with assms have one: "1 \<le> scale * k" by linarith
  have "scale * k * p = dn" using k by (simp add: mult.assoc mult.left_commute mult.commute)
  with Some q ge one show ?thesis by (simp add: peeled_def remaining_def)
qed

lemma reduce_dim_exact:
  assumes "1 \<le> dn" "1 \<le> scale" "31 * scale < 2147483648" "scale dvd dn" "is_int32 (dn * up)"
  shows "reduce_dim dn up scale = Inr (remaining dn scale, up * peeled dn scale)
     \<and> remaining dn scale * (up * peeled dn scale) = dn * up"
proof -
  from peeled_remaining [OF assms(1,2,4)] have
    e: "remaining dn scale * peeled dn scale = dn" and r: "1 \<le> remaining dn scale" by simp_all
  have "remaining dn scale * (up * peeled dn scale) = remaining dn scale * peeled dn scale * up"
    by (simp only: mult.assoc mult.left_commute mult.commute)
  also have "\<dots> = dn * up" by (simp only: e)
  finally have pr: "remaining dn scale * (up * peeled dn scale) = dn * up" .
  have "up * peeled dn scale * remaining dn scale = remaining dn scale * peeled dn scale * up"
    by (simp only: mult.assoc mult.left_commute mult.commute)
  also have "\<dots> = dn * up" by (simp only: e)
  finally have "up * peeled dn scale * remaining dn scale = dn * up" .
  then have "is_int32 (up * peeled dn scale * remaining dn scale)"
    using assms(5) by (simp only:)
  with r have "is_int32 (up * peeled dn scale)" by (rule factor_is_int32)
  then have "wrap_int32 (up * peeled dn scale) = up * peeled dn scale" by (rule wrap_int32_id)
  with reduce_dim_peeled [OF assms(1,2,3), of up] pr show ?thesis by simp
qed

lemma small_primes_prime: "\<forall>p\<in>set small_primes. is_prime p"
  by code_simp

lemma small_primes_sorted: "sorted_wrt (<) small_primes"
  by (simp add: small_primes_def)

lemma prime_le_31_listed:
  assumes "is_prime q" "q \<le> 31"
  shows "q \<in> set small_primes"
proof (rule ccontr)
  assume n: "q \<notin> set small_primes"
  from assms have q: "1 < q" by (simp add: is_prime_def)
  from n q assms(2) have "(2 dvd q \<and> 2 < q) \<or> (3 dvd q \<and> 3 < q) \<or> (5 dvd q \<and> 5 < q)"
    unfolding small_primes_def by simp presburger
  then obtain d where "d dvd q" "2 \<le> d" "d < q" by auto
  with assms(1) show False by (auto simp: is_prime_def)
qed

lemma find_sorted_least:
  assumes "find P xs = Some p" "sorted_wrt (<) xs" "q \<in> set xs" "q < (p::int)"
  shows "\<not> P q"
  using assms
proof (induction xs)
  case Nil
  then show ?case by simp
next
  case (Cons x xs)
  show ?case
  proof (cases "P x")
    case True
    with Cons.prems have "p = x" by simp
    with Cons.prems show ?thesis by auto
  next
    case False
    with Cons show ?thesis by auto
  qed
qed

lemma first_prime_least:
  assumes f: "first_prime dn scale = Some p" and "1 \<le> dn" "1 \<le> scale" "scale dvd dn"
  shows "is_prime p \<and> p dvd dn div scale \<and> (\<forall>q. is_prime q \<and> q dvd dn div scale \<longrightarrow> p \<le> q)"
proof -
  from assms obtain m where m: "dn = scale * m" by (auto elim: dvdE)
  with assms have dm: "dn div scale = m" by simp
  have iff: "r * scale dvd dn \<longleftrightarrow> r dvd m" for r
    using assms m by (simp add: mult.commute)
  from f have pin: "p \<in> set small_primes" and pd: "p * scale dvd dn"
    unfolding first_prime_def by (auto simp: find_Some_iff)
  have p31: "p \<le> 31" using pin by (auto simp: small_primes_def)
  have least: "p \<le> q" if "is_prime q" "q dvd m" for q
  proof (rule ccontr)
    assume "\<not> p \<le> q"
    then have lt: "q < p" by simp
    with p31 that have "q \<in> set small_primes" by (intro prime_le_31_listed) auto
    from find_sorted_least [OF f [unfolded first_prime_def] small_primes_sorted this lt]
    show False using that iff by simp
  qed
  from pin small_primes_prime have "is_prime p" by blast
  with pd iff least dm show ?thesis by auto
qed

subsection \<open>One shrink of the loop grid\<close>

lemma shrink_cases:
  assumes "shrink c = Inr c'"
  shows "(1 < loop_grid c 0
        \<and> (\<exists>dn up. reduce_dim (loop_grid c 0) (kernel_grid c 1) 1 = Inr (dn, up)
             \<and> c' = c\<lparr>kernel_grid := (kernel_grid c)(1 := up), loop_grid := (loop_grid c)(0 := dn)\<rparr>))
     \<or> (\<not> 1 < loop_grid c 0 \<and> simd (exec_cfg c) \<noteq> 0 \<and> 1 < loop_grid c 1 sdiv simd (exec_cfg c)
        \<and> (\<exists>dn up. reduce_dim (loop_grid c 1) (kernel_grid c 0) (simd (exec_cfg c)) = Inr (dn, up)
             \<and> c' = c\<lparr>kernel_grid := (kernel_grid c)(0 := up), loop_grid := (loop_grid c)(1 := dn)\<rparr>))"
  using assms
  by (auto simp: shrink_def Let_def split: if_splits sum.splits prod.splits)

lemma shrink_axis0:
  assumes "1 < loop_grid c 0"
  shows "shrink c = Inr (c\<lparr>kernel_grid := (kernel_grid c)(1 := wrap_int32 (kernel_grid c 1 * peeled (loop_grid c 0) 1)),
        loop_grid := (loop_grid c)(0 := remaining (loop_grid c 0) 1)\<rparr>)"
proof -
  from assms have "reduce_dim (loop_grid c 0) (kernel_grid c 1) 1 =
      Inr (remaining (loop_grid c 0) 1, wrap_int32 (kernel_grid c 1 * peeled (loop_grid c 0) 1))"
    by (intro reduce_dim_peeled) auto
  with assms show ?thesis by (simp add: shrink_def Let_def)
qed

lemma shrink_axis1:
  assumes "\<not> 1 < loop_grid c 0" "1 \<le> simd (exec_cfg c)" "31 * simd (exec_cfg c) < 2147483648"
    "1 < loop_grid c 1 sdiv simd (exec_cfg c)"
  shows "shrink c = Inr (c\<lparr>kernel_grid := (kernel_grid c)(0 := wrap_int32 (kernel_grid c 0 * peeled (loop_grid c 1) (simd (exec_cfg c)))),
        loop_grid := (loop_grid c)(1 := remaining (loop_grid c 1) (simd (exec_cfg c)))\<rparr>)"
proof -
  from assms(2,4) have pos: "1 \<le> loop_grid c 1" by (rule sdiv_gt1_pos)
  with assms have "reduce_dim (loop_grid c 1) (kernel_grid c 0) (simd (exec_cfg c)) =
      Inr (remaining (loop_grid c 1) (simd (exec_cfg c)),
           wrap_int32 (kernel_grid c 0 * peeled (loop_grid c 1) (simd (exec_cfg c))))"
    by (intro reduce_dim_peeled) auto
  with assms show ?thesis by (simp add: shrink_def Let_def)
qed


lemma shrink_fatal_iff:
  assumes "simd (exec_cfg c) \<noteq> 0"
  shows "shrink c = Inl (Not_expected ''minimal loop_grid too large!'')
     \<longleftrightarrow> loop_grid c 0 \<le> 1 \<and> loop_grid c 1 sdiv simd (exec_cfg c) \<le> 1"
  using assms
  by (auto simp: shrink_def Let_def dest: reduce_dim_Inl
           split: if_splits sum.splits prod.splits)

lemma shrink_exec_cfg: "shrink c = Inr c' \<Longrightarrow> exec_cfg c' = exec_cfg c"
  by (drule shrink_cases) auto

lemma shrink_measure_less:
  assumes "shrink cfg = Inr cfg'"
  shows "shrink_measure cfg' < shrink_measure cfg"
  using shrink_cases [OF assms]
proof (elim disjE conjE exE)
  fix dn up
  assume a: "1 < loop_grid cfg 0" "reduce_dim (loop_grid cfg 0) (kernel_grid cfg 1) 1 = Inr (dn, up)"
    and c: "cfg' = cfg\<lparr>kernel_grid := (kernel_grid cfg)(1 := up), loop_grid := (loop_grid cfg)(0 := dn)\<rparr>"
  from a have "1 \<le> dn \<and> dn < loop_grid cfg 0"
    unfolding reduce_dim_def using small_primes_bounds by (intro reduce_dim_loop_axis0)
  then show ?thesis unfolding c shrink_measure_def by simp
next
  fix dn up
  assume a: "1 < loop_grid cfg 1 sdiv simd (exec_cfg cfg)"
    "reduce_dim (loop_grid cfg 1) (kernel_grid cfg 0) (simd (exec_cfg cfg)) = Inr (dn, up)"
    and c: "cfg' = cfg\<lparr>kernel_grid := (kernel_grid cfg)(0 := up), loop_grid := (loop_grid cfg)(1 := dn)\<rparr>"
  have b: "\<forall>p\<in>set small_primes. 2 \<le> p" using small_primes_bounds by auto
  from a(2) a(1) b have "\<bar>dn\<bar> < \<bar>loop_grid cfg 1\<bar>"
    unfolding reduce_dim_def by (rule reduce_dim_loop_abs)
  then show ?thesis unfolding c shrink_measure_def by simp
qed

lemma shrink_product_less:
  assumes "shrink c = Inr c'" "1 \<le> simd (exec_cfg c)" "1 \<le> loop_grid c 0" "1 \<le> loop_grid c 1"
  shows "loop_grid_product c' < loop_grid_product c \<and> 1 \<le> loop_grid c' 0 \<and> 1 \<le> loop_grid c' 1"
  using shrink_cases [OF assms(1)]
proof (elim disjE conjE exE)
  fix dn up
  assume a: "1 < loop_grid c 0" "reduce_dim (loop_grid c 0) (kernel_grid c 1) 1 = Inr (dn, up)"
    and c: "c' = c\<lparr>kernel_grid := (kernel_grid c)(1 := up), loop_grid := (loop_grid c)(0 := dn)\<rparr>"
  from a have "1 \<le> dn \<and> dn < loop_grid c 0"
    unfolding reduce_dim_def using small_primes_bounds by (intro reduce_dim_loop_axis0)
  with assms show ?thesis unfolding c loop_grid_product_def by simp
next
  fix dn up
  assume n: "\<not> 1 < loop_grid c 0" and a: "1 < loop_grid c 1 sdiv simd (exec_cfg c)"
    "reduce_dim (loop_grid c 1) (kernel_grid c 0) (simd (exec_cfg c)) = Inr (dn, up)"
    and c: "c' = c\<lparr>kernel_grid := (kernel_grid c)(0 := up), loop_grid := (loop_grid c)(1 := dn)\<rparr>"
  from n assms have l0: "loop_grid c 0 = 1" by simp
  have b: "\<forall>p\<in>set small_primes. 2 \<le> p" using small_primes_bounds by auto
  from a(2) a(1) b have lt: "\<bar>dn\<bar> < \<bar>loop_grid c 1\<bar>"
    unfolding reduce_dim_def by (rule reduce_dim_loop_abs)
  from a(2) assms(2) a(1) small_primes_bounds have pos: "1 \<le> dn"
    unfolding reduce_dim_def by (rule reduce_dim_loop_pos)
  show ?thesis unfolding c loop_grid_product_def using lt pos l0 assms by simp
qed

lemma work_axis:
  fixes a b :: int
  assumes "a * b = l * k"
  shows "k0 * b * k2 * (a * r) = k0 * k * k2 * (l * r)"
proof -
  have "k0 * b * k2 * (a * r) = (a * b) * (k0 * k2 * r)" by (simp add: mult_ac)
  also have "\<dots> = (l * k) * (k0 * k2 * r)" by (simp only: assms)
  also have "\<dots> = k0 * k * k2 * (l * r)" by (simp add: mult_ac)
  finally show ?thesis .
qed

lemma dispatched_work_axis0:
  "dispatched_work c = kernel_grid c 0 * kernel_grid c 1 * kernel_grid c 2 *
     (loop_grid c 0 * (loop_grid c 1 * loop_grid c 2 * loop_grid c 3 * loop_grid c 4
        * loop_grid c 5 * loop_grid c 6 * loop_grid c 7))"
  by (simp add: dispatched_work_def Let_def mult.assoc)

lemma dispatched_work_axis1:
  "dispatched_work c = kernel_grid c 1 * kernel_grid c 0 * kernel_grid c 2 *
     (loop_grid c 1 * (loop_grid c 0 * loop_grid c 2 * loop_grid c 3 * loop_grid c 4
        * loop_grid c 5 * loop_grid c 6 * loop_grid c 7))"
  by (simp add: dispatched_work_def Let_def mult.assoc mult.left_commute mult.commute [of "kernel_grid c 0" "kernel_grid c 1"])

lemma shrink_work:
  assumes "shrink c = Inr c'" "1 \<le> simd (exec_cfg c)" "31 * simd (exec_cfg c) < 2147483648"
    "simd (exec_cfg c) dvd loop_grid c 1" "1 \<le> loop_grid c 0" "1 \<le> loop_grid c 1"
    "is_int32 (loop_grid c 0 * kernel_grid c 1)" "is_int32 (loop_grid c 1 * kernel_grid c 0)"
  shows "dispatched_work c' = dispatched_work c
     \<and> simd (exec_cfg c') dvd loop_grid c' 1
     \<and> loop_grid c' 0 * kernel_grid c' 1 = loop_grid c 0 * kernel_grid c 1
     \<and> loop_grid c' 1 * kernel_grid c' 0 = loop_grid c 1 * kernel_grid c 0"
  using shrink_cases [OF assms(1)]
proof (elim disjE conjE exE)
  fix dn up
  assume t: "1 < loop_grid c 0" and r: "reduce_dim (loop_grid c 0) (kernel_grid c 1) 1 = Inr (dn, up)"
    and c: "c' = c\<lparr>kernel_grid := (kernel_grid c)(1 := up), loop_grid := (loop_grid c)(0 := dn)\<rparr>"
  from reduce_dim_exact [of "loop_grid c 0" 1 "kernel_grid c 1"] assms r
  have p: "dn * up = loop_grid c 0 * kernel_grid c 1" by auto
  have "dispatched_work c' = kernel_grid c 0 * up * kernel_grid c 2 *
     (dn * (loop_grid c 1 * loop_grid c 2 * loop_grid c 3 * loop_grid c 4
        * loop_grid c 5 * loop_grid c 6 * loop_grid c 7))"
    by (simp add: c dispatched_work_axis0)
  also have "\<dots> = dispatched_work c"
    unfolding dispatched_work_axis0 [of c] by (rule work_axis [OF p])
  finally have w: "dispatched_work c' = dispatched_work c" .
  from w p assms show ?thesis by (simp add: c)
next
  fix dn up
  assume n: "\<not> 1 < loop_grid c 0"
    and r: "reduce_dim (loop_grid c 1) (kernel_grid c 0) (simd (exec_cfg c)) = Inr (dn, up)"
    and c: "c' = c\<lparr>kernel_grid := (kernel_grid c)(0 := up), loop_grid := (loop_grid c)(1 := dn)\<rparr>"
  from reduce_dim_exact [of "loop_grid c 1" "simd (exec_cfg c)" "kernel_grid c 0"] assms r
  have p: "dn * up = loop_grid c 1 * kernel_grid c 0"
    and d: "dn = remaining (loop_grid c 1) (simd (exec_cfg c))" by auto
  from peeled_remaining [of "loop_grid c 1" "simd (exec_cfg c)"] assms d
  have dv: "simd (exec_cfg c) dvd dn" by simp
  have "dispatched_work c' = kernel_grid c 1 * up * kernel_grid c 2 *
     (dn * (loop_grid c 0 * loop_grid c 2 * loop_grid c 3 * loop_grid c 4
        * loop_grid c 5 * loop_grid c 6 * loop_grid c 7))"
    by (simp add: c dispatched_work_axis1)
  also have "\<dots> = dispatched_work c"
    unfolding dispatched_work_axis1 [of c] by (rule work_axis [OF p])
  finally have w: "dispatched_work c' = dispatched_work c" .
  from w p dv show ?thesis by (simp add: c)
qed

lemma shrink_ex_cfg: "shrink ex_cfg = Inr ex_cfg2"
  by (simp add: shrink_def reduce_dim_def small_primes_def ex_cfg_def ex_cfg2_def Let_def
        wrap_int32_def)

subsection \<open>The retry loop\<close>

termination build
  by (relation "measure (\<lambda>(ps, scf, cfg, ndr). shrink_measure cfg)")
     (auto simp: shrink_measure_less)

declare build.simps [simp del]







subsection \<open>What a shrink does\<close>

text \<open>
  Claim C3, as amended. After an attempt that came back empty the driver shrinks
  loop-grid axis 0 while it exceeds 1, otherwise axis 1 while \<open>lg[1] / simd\<close>
  exceeds 1, and fails with the fatal error exactly when \<open>lg[0] \<le> 1\<close> and
  \<open>lg[1] / simd \<le> 1\<close>; for a positive multiple of \<open>simd\<close> on axis 1 that is
  \<open>lg[1] = simd\<close>. The shrink moves the first prime \<open>p\<close> of the ascending list with
  \<open>p * scale\<close> dividing the component into the kernel grid, by a multiplication of
  32 bits; that prime is the smallest prime factor of the component divided by
  \<open>scale\<close>. When no prime of the list qualifies, the whole quotient is moved and the
  component becomes \<open>scale\<close>. On axis 1 this is stated for a vector width of which
  31 times is a 32-bit value, where the products \<open>p * simd\<close> are exact.
\<close>

theorem shrink_peels_first_listed_prime:
  assumes "1 \<le> simd (exec_cfg c)"
  shows
   "(1 < loop_grid c 0 \<longrightarrow>
       shrink c = Inr (c\<lparr>kernel_grid := (kernel_grid c)(1 := wrap_int32 (kernel_grid c 1 * peeled (loop_grid c 0) 1)),
                        loop_grid := (loop_grid c)(0 := remaining (loop_grid c 0) 1)\<rparr>))
  \<and> (loop_grid c 0 \<le> 1 \<and> 1 < loop_grid c 1 sdiv simd (exec_cfg c)
        \<and> 31 * simd (exec_cfg c) < 2147483648 \<longrightarrow>
       shrink c = Inr (c\<lparr>kernel_grid := (kernel_grid c)(0 := wrap_int32 (kernel_grid c 0 * peeled (loop_grid c 1) (simd (exec_cfg c)))),
                        loop_grid := (loop_grid c)(1 := remaining (loop_grid c 1) (simd (exec_cfg c)))\<rparr>))
  \<and> (shrink c = Inl (Not_expected ''minimal loop_grid too large!'')
        \<longleftrightarrow> loop_grid c 0 \<le> 1 \<and> loop_grid c 1 sdiv simd (exec_cfg c) \<le> 1)
  \<and> (\<forall>dn scale p. 1 \<le> dn \<and> 1 \<le> scale \<and> scale dvd dn \<and> first_prime dn scale = Some p \<longrightarrow>
        peeled dn scale = p \<and> remaining dn scale = dn div p \<and> is_prime p \<and> p dvd dn div scale
        \<and> (\<forall>q. is_prime q \<and> q dvd dn div scale \<longrightarrow> p \<le> q))
  \<and> (\<forall>dn scale. first_prime dn scale = None \<longrightarrow>
        peeled dn scale = dn div scale \<and> remaining dn scale = scale)
  \<and> (simd (exec_cfg c) dvd loop_grid c 1 \<and> 1 \<le> loop_grid c 1 \<longrightarrow>
        (loop_grid c 1 sdiv simd (exec_cfg c) \<le> 1 \<longleftrightarrow> loop_grid c 1 = simd (exec_cfg c)))
  \<and> (try_build ps (scf c) c = Inr Empty_stmt \<longrightarrow>
        build ps scf c ndr = (case shrink c of Inl e \<Rightarrow> Inl e | Inr c' \<Rightarrow> build ps scf c' (nd_range c')))
  \<and> (\<forall>k. is_int32 k \<longrightarrow> wrap_int32 k = k)"
proof -
  from assms have nz: "simd (exec_cfg c) \<noteq> 0" by simp
  have p1: "1 < loop_grid c 0 \<longrightarrow>
       shrink c = Inr (c\<lparr>kernel_grid := (kernel_grid c)(1 := wrap_int32 (kernel_grid c 1 * peeled (loop_grid c 0) 1)),
                        loop_grid := (loop_grid c)(0 := remaining (loop_grid c 0) 1)\<rparr>)"
    by (intro impI) (rule shrink_axis0)
  have p2: "loop_grid c 0 \<le> 1 \<and> 1 < loop_grid c 1 sdiv simd (exec_cfg c)
        \<and> 31 * simd (exec_cfg c) < 2147483648 \<longrightarrow>
       shrink c = Inr (c\<lparr>kernel_grid := (kernel_grid c)(0 := wrap_int32 (kernel_grid c 0 * peeled (loop_grid c 1) (simd (exec_cfg c)))),
                        loop_grid := (loop_grid c)(1 := remaining (loop_grid c 1) (simd (exec_cfg c)))\<rparr>)"
  proof
    assume a: "loop_grid c 0 \<le> 1 \<and> 1 < loop_grid c 1 sdiv simd (exec_cfg c)
        \<and> 31 * simd (exec_cfg c) < 2147483648"
    then have n: "\<not> 1 < loop_grid c 0" and g: "1 < loop_grid c 1 sdiv simd (exec_cfg c)"
      and b: "31 * simd (exec_cfg c) < 2147483648" by auto
    show "shrink c = Inr (c\<lparr>kernel_grid := (kernel_grid c)(0 := wrap_int32 (kernel_grid c 0 * peeled (loop_grid c 1) (simd (exec_cfg c)))),
                        loop_grid := (loop_grid c)(1 := remaining (loop_grid c 1) (simd (exec_cfg c)))\<rparr>)"
      by (rule shrink_axis1 [OF n assms b g])
  qed
  have p3: "shrink c = Inl (Not_expected ''minimal loop_grid too large!'')
        \<longleftrightarrow> loop_grid c 0 \<le> 1 \<and> loop_grid c 1 sdiv simd (exec_cfg c) \<le> 1"
    by (rule shrink_fatal_iff) (rule nz)
  have p4: "\<forall>dn scale p. 1 \<le> dn \<and> 1 \<le> scale \<and> scale dvd dn \<and> first_prime dn scale = Some p \<longrightarrow>
        peeled dn scale = p \<and> remaining dn scale = dn div p \<and> is_prime p \<and> p dvd dn div scale
        \<and> (\<forall>q. is_prime q \<and> q dvd dn div scale \<longrightarrow> p \<le> q)"
  proof (intro allI impI)
    fix dn scale p
    assume a: "1 \<le> dn \<and> 1 \<le> scale \<and> scale dvd dn \<and> first_prime dn scale = Some p"
    then have "is_prime p \<and> p dvd dn div scale \<and> (\<forall>q. is_prime q \<and> q dvd dn div scale \<longrightarrow> p \<le> q)"
      by (intro first_prime_least) auto
    with a show "peeled dn scale = p \<and> remaining dn scale = dn div p \<and> is_prime p \<and> p dvd dn div scale
        \<and> (\<forall>q. is_prime q \<and> q dvd dn div scale \<longrightarrow> p \<le> q)"
      by (simp add: peeled_def remaining_def)
  qed
  have p5: "\<forall>dn scale. first_prime dn scale = None \<longrightarrow>
        peeled dn scale = dn div scale \<and> remaining dn scale = scale"
    by (simp add: peeled_def remaining_def)
  have p6: "simd (exec_cfg c) dvd loop_grid c 1 \<and> 1 \<le> loop_grid c 1 \<longrightarrow>
        (loop_grid c 1 sdiv simd (exec_cfg c) \<le> 1 \<longleftrightarrow> loop_grid c 1 = simd (exec_cfg c))"
  proof
    assume a: "simd (exec_cfg c) dvd loop_grid c 1 \<and> 1 \<le> loop_grid c 1"
    then obtain m where m: "loop_grid c 1 = simd (exec_cfg c) * m" by (auto elim: dvdE)
    with a assms have mpos: "1 \<le> m"
      by (intro pos_cofactor [of "simd (exec_cfg c)" m]) simp_all
    have "loop_grid c 1 sdiv simd (exec_cfg c) = m"
      using a assms m by (simp add: sdiv_pos)
    moreover have "simd (exec_cfg c) * m = simd (exec_cfg c) \<longleftrightarrow> m = 1"
      using assms by simp
    ultimately show "loop_grid c 1 sdiv simd (exec_cfg c) \<le> 1 \<longleftrightarrow> loop_grid c 1 = simd (exec_cfg c)"
      using mpos m by auto
  qed
  have p7: "try_build ps (scf c) c = Inr Empty_stmt \<longrightarrow>
        build ps scf c ndr = (case shrink c of Inl e \<Rightarrow> Inl e | Inr c' \<Rightarrow> build ps scf c' (nd_range c'))"
    by (simp add: build.simps [of ps scf c ndr] is_empty_stmt_def)
  have p8: "\<forall>k. is_int32 k \<longrightarrow> wrap_int32 k = k"
    by (simp add: wrap_int32_id)
  show ?thesis
    by (intro conjI) (fact p1 p2 p3 p4 p5 p6 p7 p8)+
qed

theorem shrink_peels_first_listed_prime_witness:
  "1 \<le> simd (exec_cfg ex_cfg48) \<and> loop_grid ex_cfg48 0 \<le> 1
   \<and> 1 < loop_grid ex_cfg48 1 sdiv simd (exec_cfg ex_cfg48)
   \<and> 31 * simd (exec_cfg ex_cfg48) < 2147483648
   \<and> shrink ex_cfg48 =
       Inr (ex_cfg48\<lparr>kernel_grid := (kernel_grid ex_cfg48)(0 := wrap_int32 (1 * peeled 48 16)),
                      loop_grid := (loop_grid ex_cfg48)(1 := remaining 48 16)\<rparr>)
   \<and> first_prime 48 16 = Some 3 \<and> peeled 48 16 = 3 \<and> remaining 48 16 = 16
   \<and> wrap_int32 (1 * 3) = 3"
proof -
  have h: "1 \<le> simd (exec_cfg ex_cfg48)"
    by (simp add: ex_cfg48_def ex_cfg_def ex_exec_def)
  have g: "loop_grid ex_cfg48 0 \<le> 1 \<and> 1 < loop_grid ex_cfg48 1 sdiv simd (exec_cfg ex_cfg48)
      \<and> 31 * simd (exec_cfg ex_cfg48) < 2147483648"
    by (simp add: ex_cfg48_def ex_cfg_def ex_exec_def)
  have v: "loop_grid ex_cfg48 1 = 48 \<and> simd (exec_cfg ex_cfg48) = 16 \<and> kernel_grid ex_cfg48 0 = 1"
    by (simp add: ex_cfg48_def ex_cfg_def ex_exec_def)
  have f: "first_prime 48 16 = Some 3 \<and> peeled 48 16 = 3 \<and> remaining 48 16 = 16
      \<and> wrap_int32 (1 * 3) = 3"
    by code_simp
  from shrink_peels_first_listed_prime [OF h] g have
    "shrink ex_cfg48 =
       Inr (ex_cfg48\<lparr>kernel_grid := (kernel_grid ex_cfg48)
               (0 := wrap_int32 (kernel_grid ex_cfg48 0 * peeled (loop_grid ex_cfg48 1) (simd (exec_cfg ex_cfg48)))),
             loop_grid := (loop_grid ex_cfg48)
               (1 := remaining (loop_grid ex_cfg48 1) (simd (exec_cfg ex_cfg48)))\<rparr>)"
    by blast
  with h g f v show ?thesis by simp
qed

text \<open>
  The claim as it was stated fails on both axes. With \<open>lg[0] = 1369 = 37 * 37\<close> no
  prime of the list divides, and the whole of 1369, which is not prime, goes to the
  kernel grid. With \<open>lg[1] = 48\<close> and \<open>simd = 16\<close> the factor moved is 3, while
  the smallest prime factor of 48 is 2.
\<close>

theorem shrink_smallest_prime_factor_counterexample:
  "map_sum id (\<lambda>c. (loop_grid c 0, kernel_grid c 1)) (shrink ex_cfg1369) = Inr (1, 1369)
   \<and> \<not> is_prime 1369 \<and> is_prime 37 \<and> (37::int) dvd 1369
   \<and> map_sum id (\<lambda>c. (loop_grid c 1, kernel_grid c 0)) (shrink ex_cfg48) = Inr (16, 3)
   \<and> is_prime 2 \<and> (2::int) dvd 48"
  by code_simp

subsection \<open>The dispatched work\<close>

text \<open>
  Claim C10, as amended. For 32-bit integers \<open>dn \<ge> 1\<close>, \<open>up\<close> and
  \<open>scale \<ge> 1\<close> with \<open>scale\<close> dividing \<open>dn\<close>, such that \<open>31 * scale\<close> and the
  product \<open>dn * up\<close> are 32-bit values, \<open>reduce_dim\<close> returns, keeps the product
  \<open>dn * up\<close> and leaves a multiple \<open>dn \<ge> scale\<close> of \<open>scale\<close>. A shrink of the
  retry driver, on a configuration with positive components whose vector width
  divides the loop-grid component of axis 1, and whose products \<open>lg[0] * kg[1]\<close>,
  \<open>lg[1] * kg[0]\<close> and \<open>31 * simd\<close> are 32-bit values, keeps the dispatched work,
  the product of the kernel grid and the loop grid, and leads to a configuration of
  the same kind, so the work is kept along a whole run.
\<close>

theorem reduce_dim_conserves_work:
  "(1 \<le> dn \<and> 1 \<le> scale \<and> 31 * scale < 2147483648 \<and> scale dvd dn \<and> is_int32 (dn * up) \<longrightarrow>
      (\<exists>dn' up'. reduce_dim dn up scale = Inr (dn', up') \<and> dn' * up' = dn * up
          \<and> scale \<le> dn' \<and> scale dvd dn'))
   \<and> (1 \<le> simd (exec_cfg c) \<and> 31 * simd (exec_cfg c) < 2147483648
        \<and> simd (exec_cfg c) dvd loop_grid c 1 \<and> 1 \<le> loop_grid c 0 \<and> 1 \<le> loop_grid c 1
        \<and> is_int32 (loop_grid c 0 * kernel_grid c 1) \<and> is_int32 (loop_grid c 1 * kernel_grid c 0)
        \<and> shrink c = Inr c' \<longrightarrow>
        dispatched_work c' = dispatched_work c
        \<and> 1 \<le> simd (exec_cfg c') \<and> 31 * simd (exec_cfg c') < 2147483648
        \<and> simd (exec_cfg c') dvd loop_grid c' 1 \<and> 1 \<le> loop_grid c' 0 \<and> 1 \<le> loop_grid c' 1
        \<and> is_int32 (loop_grid c' 0 * kernel_grid c' 1) \<and> is_int32 (loop_grid c' 1 * kernel_grid c' 0))"
  (is "?call \<and> ?shrink")
proof -
  have p1: ?call
  proof
    assume h: "1 \<le> dn \<and> 1 \<le> scale \<and> 31 * scale < 2147483648 \<and> scale dvd dn \<and> is_int32 (dn * up)"
    then have a: "1 \<le> dn" "1 \<le> scale" "31 * scale < 2147483648" "scale dvd dn" "is_int32 (dn * up)"
      by simp_all
    from reduce_dim_exact [OF a] have
      r: "reduce_dim dn up scale = Inr (remaining dn scale, up * peeled dn scale)"
      and e: "remaining dn scale * (up * peeled dn scale) = dn * up" by simp_all
    from peeled_remaining [OF a(1,2,4)] have
      g: "scale \<le> remaining dn scale" "scale dvd remaining dn scale"
      by simp_all
    from r e g show "\<exists>dn' up'. reduce_dim dn up scale = Inr (dn', up') \<and> dn' * up' = dn * up
          \<and> scale \<le> dn' \<and> scale dvd dn'"
      by (intro exI [of _ "remaining dn scale"] exI [of _ "up * peeled dn scale"] conjI)
  qed
  have p2: ?shrink
  proof
    assume a: "1 \<le> simd (exec_cfg c) \<and> 31 * simd (exec_cfg c) < 2147483648
        \<and> simd (exec_cfg c) dvd loop_grid c 1 \<and> 1 \<le> loop_grid c 0 \<and> 1 \<le> loop_grid c 1
        \<and> is_int32 (loop_grid c 0 * kernel_grid c 1) \<and> is_int32 (loop_grid c 1 * kernel_grid c 0)
        \<and> shrink c = Inr c'"
    then have s: "shrink c = Inr c'" and h: "1 \<le> simd (exec_cfg c)" "31 * simd (exec_cfg c) < 2147483648"
      "simd (exec_cfg c) dvd loop_grid c 1" "1 \<le> loop_grid c 0" "1 \<le> loop_grid c 1"
      "is_int32 (loop_grid c 0 * kernel_grid c 1)" "is_int32 (loop_grid c 1 * kernel_grid c 0)"
      by simp_all
    from shrink_work [OF s h] shrink_product_less [OF s h(1,4,5)] shrink_exec_cfg [OF s] h
    show "dispatched_work c' = dispatched_work c
        \<and> 1 \<le> simd (exec_cfg c') \<and> 31 * simd (exec_cfg c') < 2147483648
        \<and> simd (exec_cfg c') dvd loop_grid c' 1 \<and> 1 \<le> loop_grid c' 0 \<and> 1 \<le> loop_grid c' 1
        \<and> is_int32 (loop_grid c' 0 * kernel_grid c' 1) \<and> is_int32 (loop_grid c' 1 * kernel_grid c' 0)"
      by simp
  qed
  show ?thesis
    by (intro conjI) (fact p1 p2)+
qed

theorem reduce_dim_conserves_work_witness:
  "(1::int) \<le> 12 \<and> (1::int) \<le> 4 \<and> (31::int) * 4 < 2147483648 \<and> (4::int) dvd 12 \<and> is_int32 (12 * 5)
   \<and> (\<exists>dn' up'. reduce_dim 12 5 4 = Inr (dn', up') \<and> dn' * up' = 12 * 5 \<and> 4 \<le> dn' \<and> 4 dvd dn')
   \<and> is_int32 (loop_grid ex_cfg 0 * kernel_grid ex_cfg 1)
   \<and> is_int32 (loop_grid ex_cfg 1 * kernel_grid ex_cfg 0)
   \<and> shrink ex_cfg = Inr ex_cfg2 \<and> dispatched_work ex_cfg2 = dispatched_work ex_cfg"
proof -
  have h: "1 \<le> simd (exec_cfg ex_cfg) \<and> 31 * simd (exec_cfg ex_cfg) < 2147483648
        \<and> simd (exec_cfg ex_cfg) dvd loop_grid ex_cfg 1 \<and> 1 \<le> loop_grid ex_cfg 0
        \<and> 1 \<le> loop_grid ex_cfg 1
        \<and> is_int32 (loop_grid ex_cfg 0 * kernel_grid ex_cfg 1)
        \<and> is_int32 (loop_grid ex_cfg 1 * kernel_grid ex_cfg 0)
        \<and> shrink ex_cfg = Inr ex_cfg2"
    by (simp add: shrink_ex_cfg) (simp add: ex_cfg_def ex_exec_def is_int32_def)
  have g: "(1::int) \<le> 12 \<and> (1::int) \<le> 4 \<and> (31::int) * 4 < 2147483648 \<and> (4::int) dvd 12 \<and> is_int32 (12 * 5)"
    by (simp add: is_int32_def)
  from reduce_dim_conserves_work [of 12 4 5 ex_cfg ex_cfg2] h g show ?thesis by blast
qed

text \<open>
  The claim as it was stated fails where a product leaves the 32 bits of an
  \<^verbatim>\<open>int\<close>. With \<open>dn = 4\<close>, \<open>up = 2^30\<close> and \<open>scale = 1\<close> the prime 2 is
  peeled and \<open>up\<close> becomes \<open>- 2^31\<close>: the product goes from \<open>2^32\<close> to
  \<open>- 2^32\<close>. With \<open>dn = scale = 1431655766\<close> the product \<open>3 * scale\<close> is 2 in
  32 bits, the prime 3 is peeled from a component that it does not divide, and the
  product goes from 1431655766 to 1431655764.
\<close>

theorem reduce_dim_overflow_counterexample:
  "reduce_dim 4 1073741824 1 = Inr (2, - 2147483648)
   \<and> (2::int) * (- 2147483648) \<noteq> 4 * 1073741824
   \<and> is_int32 4 \<and> is_int32 1073741824 \<and> (1::int) dvd 4
   \<and> reduce_dim 1431655766 1 1431655766 = Inr (477218588, 3)
   \<and> (477218588::int) * 3 \<noteq> 1431655766 * 1
   \<and> is_int32 1431655766 \<and> is_int32 (1431655766 * 1) \<and> (1431655766::int) dvd 1431655766"
  by code_simp


section \<open>Properties of the assembler\<close>

subsection \<open>The statements of a sequence\<close>

lemma flat_append_stmt: "flat (append_stmt a b) = flat a @ flat b"
  by (cases a; cases b) simp_all

lemma flat_fold_append:
  assumes "\<And>x. flat (g x) = [g x]"
  shows "flat (fold (\<lambda>x s. append_stmt s (g x)) xs s0) = flat s0 @ map g xs"
  by (induction xs arbitrary: s0) (simp_all add: flat_append_stmt assms)

lemma flat_append_stores:
  "flat (append_stores s0 buf offs v) = flat s0 @ map (\<lambda>off. Store buf off (v off)) offs"
  unfolding append_stores_def by (rule flat_fold_append) simp

lemma flat_fill_stmt: "flat (fill_stmt sc v) = map (fill_store sc v) (read_tiles sc)"
  unfolding fill_stmt_def by (simp add: flat_fold_append fill_store_def split_def)

lemma flat_compute_stmt:
  "flat (compute_stmt sc cfg) = read_stmt # map (reduce_store sc cfg) (read_tiles sc)"
  unfolding compute_stmt_def
  by (simp add: flat_fold_append reduce_store_def split_def Let_def read_stmt_def)

lemma flat_stop_stmt:
  "flat (stop_stmt sc cfg offs) =
     map (\<lambda>i. Store read_buf (i * type_size (scalar (read_type sc cfg))) (zero_bcast sc cfg)) offs"
  unfolding stop_stmt_def by (simp add: flat_fold_append)

lemma flat_loop_body:
  "flat (loop_body sc cfg fv) =
     (if check_idhw sc (pool_conf cfg) then map (fill_store sc fv) (read_tiles sc) else [])
     @ read_stmt # map (reduce_store sc cfg) (read_tiles sc)"
  by (simp add: loop_body_def flat_append_stmt flat_fill_stmt flat_compute_stmt)


subsection \<open>Feasibility\<close>

lemma lower_not_empty: "\<not> is_empty_stmt (lower ps cfg body allocs)"
  by (simp add: lower_def is_empty_stmt_def Let_def)

text \<open>
  Claim C2. When the assembly and the lowering of an attempt succeed with the
  program \<open>p\<close>, \<open>try_build\<close> returns the empty statement if and only if the
  estimated peak register usage of \<open>p\<close> exceeds the register count of the device,
  and otherwise returns \<open>p\<close> itself, the program after the last pass inside the
  kernel group, which is never empty. A fatal error of the assembly is the only
  other outcome.
\<close>

theorem try_build_all_or_nothing:
  "(\<forall>e. kernel_body ps sc cfg = Inl e \<longrightarrow> try_build ps sc cfg = Inl e)
   \<and> (\<forall>p. kernel_body ps sc cfg = Inr p \<longrightarrow>
        \<not> is_empty_stmt p
        \<and> (\<exists>body allocs. assemble ps sc cfg = Inr (body, allocs) \<and> p = lower ps cfg body allocs)
        \<and> (\<exists>s. try_build ps sc cfg = Inr s
             \<and> (is_empty_stmt s \<longleftrightarrow> regs (exec_cfg cfg) < get_peak_regs ps p (grf_size (exec_cfg cfg)))
             \<and> (\<not> is_empty_stmt s \<longrightarrow> s = p)))"
proof (intro conjI allI impI)
  fix e assume "kernel_body ps sc cfg = Inl e"
  then show "try_build ps sc cfg = Inl e" by (simp add: try_build_def)
next
  fix p assume k: "kernel_body ps sc cfg = Inr p"
  then obtain body allocs where a: "assemble ps sc cfg = Inr (body, allocs)" and p: "p = lower ps cfg body allocs"
    by (auto simp: kernel_body_def split: sum.splits)
  from p show "\<not> is_empty_stmt p" by (simp add: lower_not_empty)
  from a p show "\<exists>body allocs. assemble ps sc cfg = Inr (body, allocs) \<and> p = lower ps cfg body allocs"
    by blast
  from p have ne: "p \<noteq> Empty_stmt" using lower_not_empty [of ps cfg body allocs] by (simp add: is_empty_stmt_def)
  show "\<exists>s. try_build ps sc cfg = Inr s
             \<and> (is_empty_stmt s \<longleftrightarrow> regs (exec_cfg cfg) < get_peak_regs ps p (grf_size (exec_cfg cfg)))
             \<and> (\<not> is_empty_stmt s \<longrightarrow> s = p)"
    using k ne by (simp add: try_build_def Let_def is_empty_stmt_def)
qed

theorem try_build_all_or_nothing_witness:
  "(\<exists>p. kernel_body ex_passes (ex_sched ex_cfg) ex_cfg = Inr p
       \<and> regs (exec_cfg ex_cfg) < get_peak_regs ex_passes p (grf_size (exec_cfg ex_cfg))
       \<and> try_build ex_passes (ex_sched ex_cfg) ex_cfg = Inr Empty_stmt)
   \<and> (\<exists>p. kernel_body ex_passes (ex_sched ex_cfg3) ex_cfg3 = Inr p
       \<and> get_peak_regs ex_passes p (grf_size (exec_cfg ex_cfg3)) \<le> regs (exec_cfg ex_cfg3)
       \<and> try_build ex_passes (ex_sched ex_cfg3) ex_cfg3 = Inr p \<and> \<not> is_empty_stmt p)"
proof -
  have "\<not> isl (kernel_body ex_passes (ex_sched ex_cfg) ex_cfg)" by code_simp
  then obtain p where p: "kernel_body ex_passes (ex_sched ex_cfg) ex_cfg = Inr p"
    by (cases "kernel_body ex_passes (ex_sched ex_cfg) ex_cfg") auto
  have t: "try_build ex_passes (ex_sched ex_cfg) ex_cfg = Inr Empty_stmt" by code_simp
  have "\<not> isl (kernel_body ex_passes (ex_sched ex_cfg3) ex_cfg3)" by code_simp
  then obtain q where q: "kernel_body ex_passes (ex_sched ex_cfg3) ex_cfg3 = Inr q"
    by (cases "kernel_body ex_passes (ex_sched ex_cfg3) ex_cfg3") auto
  have u: "\<not> is_empty_stmt (projr (try_build ex_passes (ex_sched ex_cfg3) ex_cfg3))" by code_simp
  from try_build_all_or_nothing [of ex_passes "ex_sched ex_cfg" ex_cfg] p t
  have a: "regs (exec_cfg ex_cfg) < get_peak_regs ex_passes p (grf_size (exec_cfg ex_cfg))"
    by (auto simp: is_empty_stmt_def)
  from try_build_all_or_nothing [of ex_passes "ex_sched ex_cfg3" ex_cfg3] q u
  have b: "get_peak_regs ex_passes q (grf_size (exec_cfg ex_cfg3)) \<le> regs (exec_cfg ex_cfg3)
       \<and> try_build ex_passes (ex_sched ex_cfg3) ex_cfg3 = Inr q \<and> \<not> is_empty_stmt q"
    by (metis not_less sum.sel(2))
  from p t a q b show ?thesis by blast
qed


subsection \<open>The accumulator\<close>

lemma reduction_identity_case:
  "is_identity (pool_conf cfg) \<Longrightarrow> reduction sc cfg = Inr (read_stmt, read_buf, read_type sc cfg, [])"
  by (simp add: reduction_def Let_def)

lemma reduction_non_identity:
  assumes "\<not> is_identity (pool_conf cfg)" "reduction sc cfg = Inr (stmt, abuf, atype, al)"
  shows "\<exists>offs fv. for_offsets (acc_size sc cfg) (simd (exec_cfg cfg) * acc_sc_size sc cfg) = Inr offs
     \<and> fill_value sc cfg = Inr fv
     \<and> flat stmt = map (\<lambda>i. Store acc_buf i (acc_init_value sc cfg)) offs
          @ [Loop_nest (loop_body sc cfg fv)]
          @ (if is_max (pool_conf cfg) then []
             else map (\<lambda>i. Store acc_buf i (normalize_value sc cfg i)) offs)
     \<and> abuf = acc_buf
     \<and> atype = (if is_max (pool_conf cfg) then acc_type_init sc cfg
                 else Type_t f32 (simd (exec_cfg cfg)))
     \<and> al = [Alloc acc_buf (acc_size sc cfg) grf]"
  using assms
  by (auto simp: reduction_def Let_def init_stmt_def flat_append_stores flat_append_stmt
           split: if_splits sum.splits)

lemma reduction_accumulator:
  assumes "\<not> is_identity (pool_conf cfg)" "reduction sc cfg = Inr (stmt, abuf, atype, al)"
  shows "abuf = acc_buf \<and> al = [Alloc acc_buf (acc_size sc cfg) grf]
     \<and> (\<exists>pre fv post. flat stmt = pre @ [Loop_nest (loop_body sc cfg fv)] @ post
           \<and> flat (loop_body sc cfg fv) =
               (if check_idhw sc (pool_conf cfg) then map (fill_store sc fv) (read_tiles sc) else [])
               @ read_stmt # map (reduce_store sc cfg) (read_tiles sc))
     \<and> atype = (if is_max (pool_conf cfg) then acc_type_init sc cfg
                 else Type_t f32 (simd (exec_cfg cfg)))"
proof -
  from reduction_non_identity [OF assms] obtain offs fv where
    f: "flat stmt = map (\<lambda>i. Store acc_buf i (acc_init_value sc cfg)) offs
        @ [Loop_nest (loop_body sc cfg fv)]
        @ (if is_max (pool_conf cfg) then []
           else map (\<lambda>i. Store acc_buf i (normalize_value sc cfg i)) offs)"
    and rest: "abuf = acc_buf" "atype = (if is_max (pool_conf cfg) then acc_type_init sc cfg
               else Type_t f32 (simd (exec_cfg cfg)))" "al = [Alloc acc_buf (acc_size sc cfg) grf]"
    by blast
  from f rest flat_loop_body [of sc cfg fv] show ?thesis by blast
qed

text \<open>
  Claim C7, as amended. The type that \<open>try_build\<close> first picks for the accumulator
  is s32 for an integer source, the source kind for a non-integer source under max
  and f32 for a non-integer source under an average; it depends on the algorithm and
  the source kind alone. In a build that is not an identity the accumulator buffer has
  this type throughout the reduction (after the division of an average it holds
  f32). In an identity build, where the window has at most one element, there is no
  accumulator of its own: the read buffer is the accumulator and its type is the
  source type.
\<close>

theorem accumulator_type_of_reduction:
  "kind (acc_type_init sc cfg) =
      (if kind_is_int (read_kind sc) then s32
       else if alg (pool_conf cfg) = pooling_max then read_kind sc else f32)
   \<and> elems (acc_type_init sc cfg) = simd (exec_cfg cfg)
   \<and> (\<not> is_identity (pool_conf cfg) \<longrightarrow>
        (\<forall>stmt abuf atype al. reduction sc cfg = Inr (stmt, abuf, atype, al) \<longrightarrow>
           abuf = acc_buf \<and> al = [Alloc acc_buf (acc_size sc cfg) grf]
           \<and> (\<exists>pre fv post. flat stmt = pre @ [Loop_nest (loop_body sc cfg fv)] @ post
                 \<and> flat (loop_body sc cfg fv) =
                     (if check_idhw sc (pool_conf cfg) then map (fill_store sc fv) (read_tiles sc) else [])
                     @ read_stmt # map (reduce_store sc cfg) (read_tiles sc))
           \<and> atype = (if is_max (pool_conf cfg) then acc_type_init sc cfg
                       else Type_t f32 (simd (exec_cfg cfg)))))
   \<and> (is_identity (pool_conf cfg) \<longrightarrow>
        reduction sc cfg = Inr (read_stmt, read_buf, read_type sc cfg, []))
   \<and> (\<forall>s0 s1 l. reduce_store sc cfg (s0, s1, l) =
         Store acc_buf ((s0 * loop_grid cfg 1 + s1) * acc_sc_size sc cfg)
           (Binary_op (if is_max (pool_conf cfg) then op_max else op_add)
              (Load (acc_type_init sc cfg) acc_buf ((s0 * loop_grid cfg 1 + s1) * acc_sc_size sc cfg))
              (Cast (acc_type_init sc cfg)
                 (Load (read_type sc cfg) read_buf (l * kind_size (read_kind sc))))))"
  (is "?pick \<and> ?lanes \<and> ?reduce \<and> ?identity \<and> ?store")
proof -
  have p1: ?pick
    by (simp add: acc_type_init_def is_int_def read_type_def is_max_def)
  have p2: ?lanes
    by (simp add: acc_type_init_def read_type_def)
  have p3: ?reduce
    by (intro impI allI) (rule reduction_accumulator)
  have p4: ?identity
    by (simp add: reduction_identity_case)
  have p5: ?store
    by (simp add: reduce_store_def Let_def)
  show ?thesis
    by (intro conjI) (fact p1 p2 p3 p4 p5)+
qed

theorem accumulator_type_of_reduction_witness:
  "\<not> is_identity (pool_conf ex_cfg)
   \<and> kind (acc_type_init (ex_sched ex_cfg) ex_cfg) = s32
   \<and> map_sum id (\<lambda>(s, b, t, al). (b, t, al)) (reduction (ex_sched ex_cfg) ex_cfg)
        = Inr (acc_buf, Type_t s32 16, [Alloc acc_buf 512 grf])
   \<and> is_identity (pool_conf ex_cfg_id)
   \<and> reduction (ex_sched ex_cfg_id) ex_cfg_id = Inr (read_stmt, read_buf, Type_t s8 16, [])"
proof -
  have n: "\<not> is_identity (pool_conf ex_cfg)" by code_simp
  have i: "is_identity (pool_conf ex_cfg_id)" by code_simp
  have v: "read_type (ex_sched ex_cfg_id) ex_cfg_id = Type_t s8 16" by code_simp
  have k: "kind_is_int (read_kind (ex_sched ex_cfg))" by code_simp
  have r: "map_sum id (\<lambda>(s, b, t, al). (b, t, al)) (reduction (ex_sched ex_cfg) ex_cfg)
        = Inr (acc_buf, Type_t s32 16, [Alloc acc_buf 512 grf])"
    by code_simp
  from accumulator_type_of_reduction [of "ex_sched ex_cfg" ex_cfg] k
  have a: "kind (acc_type_init (ex_sched ex_cfg) ex_cfg) = s32" by simp
  from accumulator_type_of_reduction [of "ex_sched ex_cfg_id" ex_cfg_id] i v
  have b: "reduction (ex_sched ex_cfg_id) ex_cfg_id = Inr (read_stmt, read_buf, Type_t s8 16, [])"
    by simp
  from n a r i b show ?thesis by blast
qed

text \<open>
  The claim as it was stated fails: the same algorithm on the same source kind
  accumulates in s32 for a window of three by three and in s8, in the read buffer,
  for a window of one element.
\<close>

theorem accumulator_type_counterexample:
  "map_sum id (\<lambda>(s, b, t, al). (b, kind t)) (reduction (ex_sched ex_cfg_id) ex_cfg_id) = Inr (read_buf, s8)
   \<and> map_sum id (\<lambda>(s, b, t, al). (b, kind t)) (reduction (ex_sched ex_cfg) ex_cfg) = Inr (acc_buf, s32)
   \<and> alg (pool_conf ex_cfg_id) = alg (pool_conf ex_cfg)
   \<and> read_kind (ex_sched ex_cfg_id) = read_kind (ex_sched ex_cfg)
   \<and> kind_is_int (read_kind (ex_sched ex_cfg_id))"
  by code_simp


subsection \<open>The batch guard\<close>

lemma has_loop_nest_flat: "has_loop_nest s \<longleftrightarrow> (\<exists>t\<in>set (flat s). has_loop_nest t)"
  by (induction s) auto

lemma loads_from_flat: "loads_from buf s \<longleftrightarrow> (\<exists>t\<in>set (flat s). loads_from buf t)"
  by (induction s) auto

lemma flat_taken:
  "flat (append_stmt (stop_stmt sc cfg offs) write_stmt) =
     map (\<lambda>i. Store read_buf (i * kind_size (read_kind sc))
                (Cast (read_type sc cfg) (Broadcast (Int_imm s32 0) (simd (exec_cfg cfg))))) offs
     @ [Access send_store dst_buf read_buf None]"
  by (simp add: flat_append_stmt flat_stop_stmt write_stmt_def zero_bcast_def
        type_size_def scalar_def read_type_def)

lemma taken_no_source:
  "\<not> has_loop_nest (append_stmt (stop_stmt sc cfg offs) write_stmt)
   \<and> \<not> loads_from src_buf (append_stmt (stop_stmt sc cfg offs) write_stmt)"
proof -
  have a: "\<not> has_loop_nest (append_stmt (stop_stmt sc cfg offs) write_stmt)"
    unfolding has_loop_nest_flat [of "append_stmt (stop_stmt sc cfg offs) write_stmt"] flat_taken
    by auto
  have b: "\<not> loads_from src_buf (append_stmt (stop_stmt sc cfg offs) write_stmt)"
    unfolding loads_from_flat [of src_buf "append_stmt (stop_stmt sc cfg offs) write_stmt"] flat_taken
    by auto
  from a b show ?thesis by simp
qed

lemma assemble_Inr:
  assumes "assemble ps sc cfg = Inr (body, allocs)"
  shows "\<exists>stmt0 abuf atype al g. reduction sc cfg = Inr (stmt0, abuf, atype, al)
           \<and> mb_guard sc cfg (append_stmt stmt0 (epilogue_stmt abuf atype)) = Inr g
           \<and> exit_guard ps sc cfg g = Inr body"
  using assms
  by (auto simp: assemble_def Let_def split: if_splits sum.splits prod.splits)

lemma mb_guard_taken:
  assumes "mb_guard sc cfg stmt = Inr g" "mb (pool_conf cfg) < dims_padded cfg 0"
  shows "\<exists>offs taken.
      for_offsets (acc_size sc cfg sdiv acc_sc_size sc cfg) (simd (exec_cfg cfg)) = Inr offs
      \<and> g = If_stmt (Broadcast (Binary_op op_ge (expand sc ''mb'') (Int_imm s32 (mb (pool_conf cfg))))
                       (simd (exec_cfg cfg)))
               taken stmt
      \<and> flat taken =
          map (\<lambda>i. Store read_buf (i * kind_size (read_kind sc))
                     (Cast (read_type sc cfg) (Broadcast (Int_imm s32 0) (simd (exec_cfg cfg))))) offs
          @ [Access send_store dst_buf read_buf None]
      \<and> \<not> has_loop_nest taken \<and> \<not> loads_from src_buf taken"
proof -
  from assms obtain offs where
    o: "for_offsets (acc_size sc cfg sdiv acc_sc_size sc cfg) (simd (exec_cfg cfg)) = Inr offs"
    and g: "g = If_stmt (stop_cond sc cfg) (append_stmt (stop_stmt sc cfg offs) write_stmt) stmt"
    by (auto simp: mb_guard_def split: sum.splits)
  from o g flat_taken [of sc cfg offs] taken_no_source [of sc cfg offs]
  show ?thesis unfolding stop_cond_def by blast
qed

text \<open>
  Claim C9. Exactly when the padded batch extent \<open>dims[0]\<close> exceeds \<open>conf.mb\<close>,
  the body built so far (reduction and epilogue) becomes the else-branch of a
  conditional on \<open>mb \<ge> conf.mb\<close>; the taken branch is a run of stores of zero
  into the read buffer followed by the direct store of the read buffer to the
  destination, and holds neither a loop nest nor a load from the source. Otherwise the
  body is unchanged. This holds for every algorithm.
\<close>

theorem batch_guard_wraps_body:
  "(\<forall>g. mb_guard sc cfg stmt = Inr g \<longrightarrow>
      (mb (pool_conf cfg) < dims_padded cfg 0 \<longrightarrow>
         (\<exists>offs taken.
            for_offsets (acc_size sc cfg sdiv acc_sc_size sc cfg) (simd (exec_cfg cfg)) = Inr offs
            \<and> g = If_stmt (Broadcast (Binary_op op_ge (expand sc ''mb'') (Int_imm s32 (mb (pool_conf cfg))))
                             (simd (exec_cfg cfg)))
                     taken stmt
            \<and> flat taken =
                map (\<lambda>i. Store read_buf (i * kind_size (read_kind sc))
                           (Cast (read_type sc cfg) (Broadcast (Int_imm s32 0) (simd (exec_cfg cfg))))) offs
                @ [Access send_store dst_buf read_buf None]
            \<and> \<not> has_loop_nest taken \<and> \<not> loads_from src_buf taken))
      \<and> (\<not> mb (pool_conf cfg) < dims_padded cfg 0 \<longrightarrow> g = stmt))
   \<and> (\<forall>body allocs. assemble ps sc cfg = Inr (body, allocs) \<longrightarrow>
        (\<exists>stmt0 abuf atype al g. reduction sc cfg = Inr (stmt0, abuf, atype, al)
           \<and> mb_guard sc cfg (append_stmt stmt0 (epilogue_stmt abuf atype)) = Inr g
           \<and> exit_guard ps sc cfg g = Inr body))"
  (is "?guard \<and> ?whole")
proof -
  have p1: ?guard
  proof (intro allI impI conjI)
    fix g
    assume "mb_guard sc cfg stmt = Inr g" and "\<not> mb (pool_conf cfg) < dims_padded cfg 0"
    then show "g = stmt" by (simp add: mb_guard_def)
  qed (rule mb_guard_taken)
  have p2: ?whole
    by (intro allI impI) (rule assemble_Inr)
  show ?thesis
    by (intro conjI) (fact p1 p2)+
qed

theorem batch_guard_wraps_body_witness:
  "mb (pool_conf ex_cfg) < dims_padded ex_cfg 0
   \<and> \<not> isl (mb_guard (ex_sched ex_cfg) ex_cfg read_stmt)
   \<and> (\<exists>taken. projr (mb_guard (ex_sched ex_cfg) ex_cfg read_stmt) =
         If_stmt (Broadcast (Binary_op op_ge (Var ''mb'') (Int_imm s32 2)) 16) taken read_stmt
         \<and> \<not> has_loop_nest taken \<and> \<not> loads_from src_buf taken)
   \<and> \<not> isl (assemble ex_passes (ex_sched ex_cfg) ex_cfg)
   \<and> \<not> isl (reduction (ex_sched ex_cfg) ex_cfg)"
proof -
  have d: "mb (pool_conf ex_cfg) < dims_padded ex_cfg 0" by code_simp
  have n: "\<not> isl (mb_guard (ex_sched ex_cfg) ex_cfg read_stmt)" by code_simp
  then obtain g where g: "mb_guard (ex_sched ex_cfg) ex_cfg read_stmt = Inr g"
    by (cases "mb_guard (ex_sched ex_cfg) ex_cfg read_stmt") auto
  have v: "expand (ex_sched ex_cfg) ''mb'' = Var ''mb'' \<and> mb (pool_conf ex_cfg) = 2 \<and> simd (exec_cfg ex_cfg) = 16"
    by code_simp
  have a: "\<not> isl (assemble ex_passes (ex_sched ex_cfg) ex_cfg)" by code_simp
  then obtain body allocs where b: "assemble ex_passes (ex_sched ex_cfg) ex_cfg = Inr (body, allocs)"
    by (cases "assemble ex_passes (ex_sched ex_cfg) ex_cfg") auto
  from batch_guard_wraps_body [of "ex_sched ex_cfg" ex_cfg read_stmt ex_passes] g d v
  have t: "\<exists>taken. g = If_stmt (Broadcast (Binary_op op_ge (Var ''mb'') (Int_imm s32 2)) 16) taken read_stmt
         \<and> \<not> has_loop_nest taken \<and> \<not> loads_from src_buf taken"
    by auto
  from batch_guard_wraps_body [of "ex_sched ex_cfg" ex_cfg read_stmt ex_passes] b
  have r: "\<not> isl (reduction (ex_sched ex_cfg) ex_cfg)" by auto
  from d n g t a r show ?thesis by simp
qed

subsection \<open>The identity of the reduction\<close>

lemma concat_replicate_replicate: "concat (replicate n (replicate m x)) = replicate (n * m) x"
  by (induction n) (simp_all add: replicate_add)

lemma dword_elems_zero:
  "dword_elems k (word_of_int 0) = replicate (if kind_size k = 1 then 4 else if kind_size k = 2 then 2 else 1) 0"
  by (simp add: dword_elems_def conv_word_def numeral_eq_Suc upt_rec [of 0])

lemma dword_elems_s8: "dword_elems s8 (word_of_int 0x80808080) = replicate 4 (most_negative s8)"
  by code_simp

lemma dword_elems_s16: "dword_elems s16 (word_of_int 0x80008000) = replicate 2 (most_negative s16)"
  by code_simp

lemma dword_elems_s32: "dword_elems s32 (word_of_int 0x80000000) = replicate 1 (most_negative s32)"
  by code_simp

lemma most_negative_unsigned: "\<not> kind_is_signed k \<Longrightarrow> most_negative k = 0"
  by (simp add: most_negative_def)

lemma acc_init_lanes:
  "stored_elems (kind (acc_type_init sc cfg)) (acc_init_value sc cfg) =
     Some (replicate (nat (simd (exec_cfg cfg)))
        (if kind_is_int (read_kind sc)
         then Lane_int (if is_max (pool_conf cfg) \<and> kind_is_signed (read_kind sc)
                        then most_negative s32 else 0)
         else Lane_fp (if is_max (pool_conf cfg) then Neg_infinity else Zero_f)))"
proof (cases "kind_is_int (read_kind sc)")
  case False
  then show ?thesis
    by (simp add: acc_init_value_def acc_type_init_def is_int_def read_type_def Let_def)
next
  case True
  have z: "dword_elems s32 0 = [0]" using dword_elems_zero [of s32] by simp
  from True show ?thesis
    using dword_elems_s32 
    by (simp add: acc_init_value_def acc_type_init_def is_int_def is_signed_def read_type_def
          Let_def z concat_replicate_replicate [of _ 1, simplified] )
qed

lemma fill_lanes:
  assumes "fill_value sc cfg = Inr fv"
  shows "\<exists>m. stored_elems (read_kind sc) fv =
            Some (replicate m (reduction_identity (is_max (pool_conf cfg)) (read_kind sc)))
       \<and> (0 \<le> simd (exec_cfg cfg) \<and> 4 dvd simd (exec_cfg cfg) \<longrightarrow> m = nat (simd (exec_cfg cfg)))"
proof (cases "kind_is_int (read_kind sc)")
  case False
  with assms have "fv = Cast (read_type sc cfg)
             (Broadcast (Float_imm (if is_max (pool_conf cfg) then Neg_infinity else Zero_f)) (simd (exec_cfg cfg)))"
    by (auto simp: fill_value_def is_int_def read_type_def Let_def)
  with False show ?thesis by (simp add: reduction_identity_def)
next
  case True
  define sd where "sd = simd (exec_cfg cfg)"
  define mx where "mx = is_max (pool_conf cfg)"
  have d4: "nat (sd sdiv 4) * 4 = nat sd" if "0 \<le> sd" "4 dvd sd"
    using that by (auto simp: sdiv_pos elim!: dvdE)
  have d2: "nat (sd sdiv 2) * 2 = nat sd" if "0 \<le> sd" "4 dvd sd"
  proof -
    from that have "2 dvd sd" by presburger
    with that show ?thesis by (auto simp: sdiv_pos elim!: dvdE)
  qed
  from True consider "read_kind sc = u8" | "read_kind sc = s8" | "read_kind sc = u16" | "read_kind sc = s16"
    | "read_kind sc = u32" | "read_kind sc = s32" | "read_kind sc = u64" | "read_kind sc = s64"
    by (cases "read_kind sc") auto
  then show ?thesis
  proof cases
    case 1
    with assms have "fv = Broadcast (Cast (Type_t s32 1) (Int_imm u32 0)) (sd sdiv 4)"
      by (auto simp: fill_value_def is_int_def is_signed_def read_type_def Let_def sd_def)
    with 1 d4 show ?thesis
      using dword_elems_zero [of u8]
      by (auto simp: reduction_identity_def most_negative_def concat_replicate_replicate sd_def)
  next
    case 2
    with assms have "fv = Broadcast (Cast (Type_t s32 1) (Int_imm u32 (if mx then 0x80808080 else 0))) (sd sdiv 4)"
      by (auto simp: fill_value_def is_int_def is_signed_def read_type_def Let_def sd_def mx_def)
    with 2 d4 show ?thesis
      using dword_elems_zero [of s8] dword_elems_s8
      by (auto simp: reduction_identity_def concat_replicate_replicate sd_def mx_def)
  next
    case 3
    with assms have "fv = Broadcast (Cast (Type_t s32 1) (Int_imm u32 0)) (sd sdiv 2)"
      by (auto simp: fill_value_def is_int_def is_signed_def read_type_def Let_def sd_def)
    with 3 d2 show ?thesis
      using dword_elems_zero [of u16]
      by (auto simp: reduction_identity_def most_negative_def concat_replicate_replicate sd_def)
  next
    case 4
    with assms have "fv = Broadcast (Cast (Type_t s32 1) (Int_imm u32 (if mx then 0x80008000 else 0))) (sd sdiv 2)"
      by (auto simp: fill_value_def is_int_def is_signed_def read_type_def Let_def sd_def mx_def)
    with 4 d2 show ?thesis
      using dword_elems_zero [of s16] dword_elems_s16
      by (auto simp: reduction_identity_def concat_replicate_replicate sd_def mx_def)
  next
    case 5
    with assms have "fv = Broadcast (Cast (Type_t s32 1) (Int_imm u32 0)) (sd sdiv 1)"
      by (auto simp: fill_value_def is_int_def is_signed_def read_type_def Let_def sd_def)
    with 5 show ?thesis
      using dword_elems_zero [of u32]
      by (auto simp: reduction_identity_def most_negative_def concat_replicate_replicate sd_def)
  next
    case 6
    with assms have "fv = Broadcast (Cast (Type_t s32 1) (Int_imm u32 (if mx then 0x80000000 else 0))) (sd sdiv 1)"
      by (auto simp: fill_value_def is_int_def is_signed_def read_type_def Let_def sd_def mx_def)
    with 6 show ?thesis
      using dword_elems_zero [of s32] dword_elems_s32
      by (auto simp: reduction_identity_def concat_replicate_replicate sd_def mx_def)
  next
    case 7
    with assms show ?thesis by (simp add: fill_value_def is_int_def read_type_def Let_def)
  next
    case 8
    with assms show ?thesis by (simp add: fill_value_def is_int_def read_type_def Let_def)
  qed
qed

lemma max_identity:
  "kind_is_int k \<Longrightarrow> kind_size k \<le> 4 \<Longrightarrow> max (most_negative s32) (most_negative k) = most_negative k"
  by (cases k) (simp_all add: most_negative_def)

subsection \<open>Blocks of bytes in a register buffer\<close>

lemma those_map_Some:
  assumes "\<And>x. x \<in> set xs \<Longrightarrow> f x = Some (g x)"
  shows "those (map f xs) = Some (map g xs)"
  using assms by (induction xs) simp_all

lemma those_replicate: "those (replicate n (Some x)) = Some (replicate n x)"
  by (induction n) simp_all

lemma map_const_upt: "map (\<lambda>j. x) [0..<n] = replicate n x"
  by (simp add: map_replicate_const)

lemma concat_replicate_concat:
  "concat (replicate n (concat (replicate k p))) = concat (replicate (n * k) p)"
  by (induction n) (simp_all add: replicate_add)

lemma length_concat_replicate: "length (concat (replicate n p)) = n * length p"
  by (induction n) simp_all

lemma nth_concat_replicate:
  assumes "i < n * length p"
  shows "concat (replicate n p) ! i = p ! (i mod length p)"
  using assms
proof (induction n arbitrary: i)
  case 0
  then show ?case by simp
next
  case (Suc n)
  show ?case
  proof (cases "i < length p")
    case True
    then show ?thesis by (simp add: nth_append)
  next
    case False
    then have ge: "length p \<le> i" by simp
    with Suc.prems have "i - length p < n * length p" by simp
    from Suc.IH [OF this] have "concat (replicate n p) ! (i - length p) = p ! ((i - length p) mod length p)" .
    moreover have "(i - length p) mod length p = i mod length p"
      using ge by (simp add: le_mod_geq)
    ultimately show ?thesis using False by (simp add: nth_append)
  qed
qed

lemma read_write_block:
  assumes "length p = sz" "0 < sz"
  shows "read_bytes (write_bytes f (int sz * o_el) (concat (replicate n p))) (int sz * q) sz =
     (if o_el \<le> q \<and> q < o_el + int n then p else read_bytes f (int sz * q) sz)"
proof (cases "o_el \<le> q \<and> q < o_el + int n")
  case True
  define d where "d = nat (q - o_el)"
  from True have q: "q = o_el + int d" by (simp add: d_def)
  from True have dn: "d < n" unfolding d_def by linarith
  have "write_bytes f (int sz * o_el) (concat (replicate n p)) (int sz * q + int j) = p ! j"
    if j: "j < sz" for j
  proof -
    have pos: "int sz * q + int j - int sz * o_el = int (sz * d + j)"
      by (simp add: q algebra_simps)
    have "sz * d + j < sz * d + sz" using j by simp
    also have "\<dots> = sz * Suc d" by simp
    also have "\<dots> \<le> sz * n" using dn by (intro mult_le_mono2) simp
    finally have lt: "sz * d + j < n * length p" using assms by (simp add: mult.commute)
    have X: "int sz * q + int j = int sz * o_el + int (sz * d + j)"
      by (simp add: q algebra_simps)
    have inr: "int sz * o_el \<le> int sz * q + int j
        \<and> int sz * q + int j < int sz * o_el + int (length (concat (replicate n p)))"
      unfolding X length_concat_replicate using lt by (simp del: of_nat_add of_nat_mult)
    have "(sz * d + j) mod sz = j" using j by simp
    with nth_concat_replicate [OF lt] assms have c: "concat (replicate n p) ! (sz * d + j) = p ! j"
      by simp
    have w: "write_bytes f (int sz * o_el) (concat (replicate n p)) (int sz * q + int j)
        = concat (replicate n p) ! nat (int sz * q + int j - int sz * o_el)"
      by (simp only: write_bytes_def inr simp_thms if_True)
    have "nat (int sz * q + int j - int sz * o_el) = sz * d + j" by (simp only: pos nat_int)
    with w c show ?thesis by (simp only:)
  qed
  then have "read_bytes (write_bytes f (int sz * o_el) (concat (replicate n p))) (int sz * q) sz
      = map (\<lambda>j. p ! j) [0..<sz]"
    by (simp add: read_bytes_def)
  also have "\<dots> = p" unfolding assms(1) [symmetric] by (rule map_nth)
  finally show ?thesis using True by simp
next
  case False
  have "write_bytes f (int sz * o_el) (concat (replicate n p)) (int sz * q + int j)
      = f (int sz * q + int j)" if j: "j < sz" for j
  proof (cases "q < o_el")
    case True
    then have "q + 1 \<le> o_el" by simp
    then have "int sz * (q + 1) \<le> int sz * o_el" by (intro mult_left_mono) auto
    then have "int sz * q + int j < int sz * o_el" using j by (simp add: algebra_simps)
    then show ?thesis by (simp add: write_bytes_def)
  next
    case ge: False
    with False have "o_el + int n \<le> q" by simp
    then have "int sz * (o_el + int n) \<le> int sz * q" by (intro mult_left_mono) auto
    then have "\<not> int sz * q + int j < int sz * o_el + int (length (concat (replicate n p)))"
      using assms by (simp add: length_concat_replicate algebra_simps)
    then show ?thesis by (simp add: write_bytes_def)
  qed
  then have "read_bytes (write_bytes f (int sz * o_el) (concat (replicate n p))) (int sz * q) sz
      = read_bytes f (int sz * q) sz"
    by (simp add: read_bytes_def)
  with False show ?thesis by auto
qed

subsection \<open>Running a list of statements\<close>

lemma exec_seq_None: "exec_seq M it ss None = None"
  by (induction ss) (simp_all add: exec_seq_def)

lemma exec_seq_Nil: "exec_seq M it [] r = r"
  by (simp add: exec_seq_def)

lemma exec_seq_Cons: "exec_seq M it (s # ss) (Some m) = exec_seq M it ss (exec_stmt M it s m)"
  by (simp add: exec_seq_def)

lemma exec_seq_append: "exec_seq M it (ss @ ts) r = exec_seq M it ts (exec_seq M it ss r)"
  by (simp add: exec_seq_def)

lemma exec_stmt_flat: "exec_stmt M it s m = exec_seq M it (flat s) (Some m)"
proof (induction s arbitrary: m)
  case (Stmt_seq a b)
  show ?case
  proof (cases "exec_stmt M it a m")
    case None
    with Stmt_seq.IH(1) [of m] show ?thesis by (simp add: exec_seq_append exec_seq_None)
  next
    case (Some m')
    with Stmt_seq.IH(1) [of m] have a: "exec_seq M it (flat a) (Some m) = Some m'" by simp
    have "exec_stmt M it (Stmt_seq a b) m = exec_stmt M it b m'" using Some by simp
    also have "\<dots> = exec_seq M it (flat b) (Some m')" by (rule Stmt_seq.IH(2))
    also have "\<dots> = exec_seq M it (flat b) (exec_seq M it (flat a) (Some m))" by (simp only: a)
    also have "\<dots> = exec_seq M it (flat (Stmt_seq a b)) (Some m)" by (simp add: exec_seq_append)
    finally show ?thesis .
  qed
qed (simp_all add: exec_seq_def)

lemma exec_store_const:
  assumes "eval_vec m e = Some (k, replicate n l)" "encode_lane k l = Some p"
  shows "exec_stmt M it (Store buf off e) m
     = Some (m(buf := write_bytes (m buf) off (concat (replicate n p))))"
  using assms by (simp add: those_replicate)

lemma store_run:
  assumes ev: "\<And>m. eval_vec m e = Some (k, replicate n l)" and en: "encode_lane k l = Some p'"
    and pat: "concat (replicate n p') = concat (replicate n2 p)" and len: "length p = sz" "0 < sz"
  shows "\<exists>m'. exec_seq M it (map (\<lambda>o_el. Store buf (int sz * o_el) e) os) (Some m) = Some m'
     \<and> (\<forall>b. b \<noteq> buf \<longrightarrow> m' b = m b)
     \<and> (\<forall>q. read_bytes (m' buf) (int sz * q) sz =
            (if \<exists>o_el\<in>set os. o_el \<le> q \<and> q < o_el + int n2 then p
             else read_bytes (m buf) (int sz * q) sz))"
proof (induction os arbitrary: m)
  case Nil
  show ?case by (simp add: exec_seq_Nil)
next
  case (Cons x xs)
  define m1 where "m1 = m(buf := write_bytes (m buf) (int sz * x) (concat (replicate n2 p)))"
  have s: "exec_stmt M it (Store buf (int sz * x) e) m = Some m1"
    unfolding m1_def using exec_store_const [OF ev en, of M it buf "int sz * x" m] pat by simp
  have r1: "read_bytes (m1 buf) (int sz * q) sz =
      (if x \<le> q \<and> q < x + int n2 then p else read_bytes (m buf) (int sz * q) sz)" for q
    unfolding m1_def using read_write_block [OF len, of "m buf" x n2 q] by simp
  from Cons.IH [of m1] obtain m' where
    e: "exec_seq M it (map (\<lambda>o_el. Store buf (int sz * o_el) e) xs) (Some m1) = Some m'"
    and o: "\<forall>b. b \<noteq> buf \<longrightarrow> m' b = m1 b"
    and r: "\<forall>q. read_bytes (m' buf) (int sz * q) sz =
            (if \<exists>o_el\<in>set xs. o_el \<le> q \<and> q < o_el + int n2 then p
             else read_bytes (m1 buf) (int sz * q) sz)"
    by blast
  have "exec_seq M it (map (\<lambda>o_el. Store buf (int sz * o_el) e) (x # xs)) (Some m) = Some m'"
    using s e by (simp add: exec_seq_Cons)
  moreover have "\<forall>b. b \<noteq> buf \<longrightarrow> m' b = m b" using o by (simp add: m1_def)
  moreover have "\<forall>q. read_bytes (m' buf) (int sz * q) sz =
            (if \<exists>o_el\<in>set (x # xs). o_el \<le> q \<and> q < o_el + int n2 then p
             else read_bytes (m buf) (int sz * q) sz)"
    using r r1 by auto
  ultimately show ?case by blast
qed

lemma count_up_cover:
  assumes "0 < step" "i \<le> x" "x < n"
  shows "\<exists>o_b\<in>set (count_up i n step). o_b \<le> x \<and> x < o_b + step"
  using assms
proof (induction i n step rule: count_up.induct)
  case (1 i n step)
  from "1.prems" have c: "i < n \<and> 0 < step" by simp
  then have u: "count_up i n step = i # count_up (i + step) n step"
    by (subst count_up.simps) simp
  show ?case
  proof (cases "x < i + step")
    case True
    with "1.prems" u show ?thesis by simp
  next
    case False
    then have "i + step \<le> x" by simp
    from "1.IH" [OF c "1.prems"(1) this "1.prems"(3)] u show ?thesis by auto
  qed
qed

lemma count_up_dvd:
  assumes "d dvd i" "d dvd step"
  shows "\<forall>o_b\<in>set (count_up i n step). d dvd o_b"
  using assms
proof (induction i n step rule: count_up.induct)
  case (1 i n step)
  show ?case
  proof (cases "i < n \<and> 0 < step")
    case True
    then have u: "count_up i n step = i # count_up (i + step) n step"
      by (subst count_up.simps) simp
    from "1.prems" have "d dvd i + step" by simp
    from "1.IH" [OF True this "1.prems"(2)] u "1.prems" show ?thesis by simp
  next
    case False
    then have "count_up i n step = []" by (subst count_up.simps) simp
    then show ?thesis by simp
  qed
qed

lemma read_write_block_int:
  assumes "length p = nat s" "0 < s"
  shows "read_bytes (write_bytes f (s * o_el) (concat (replicate n p))) (s * q) (nat s) =
     (if o_el \<le> q \<and> q < o_el + int n then p else read_bytes f (s * q) (nat s))"
proof -
  from assms(2) have s: "int (nat s) = s" "0 < nat s" by simp_all
  from read_write_block [OF assms(1) s(2), of f o_el n q] show ?thesis by (simp only: s)
qed

lemma store_run_int:
  assumes ev: "\<And>m. eval_vec m e = Some (k, replicate n l)" and en: "encode_lane k l = Some p'"
    and pat: "concat (replicate n p') = concat (replicate n2 p)" and len: "length p = nat s" "0 < s"
  shows "\<exists>m'. exec_seq M it (map (\<lambda>o_el. Store buf (s * o_el) e) os) (Some m) = Some m'
     \<and> (\<forall>b. b \<noteq> buf \<longrightarrow> m' b = m b)
     \<and> (\<forall>q. read_bytes (m' buf) (s * q) (nat s) =
            (if \<exists>o_el\<in>set os. o_el \<le> q \<and> q < o_el + int n2 then p
             else read_bytes (m buf) (s * q) (nat s)))"
proof -
  from len(2) have s: "int (nat s) = s" "0 < nat s" by simp_all
  from store_run [of e k n l p' n2 p "nat s" M it buf os m, OF ev en pat len(1) s(2)]
  show ?thesis by (simp only: s)
qed

lemma for_offsets_Inr: "for_offsets n step = Inr offs \<Longrightarrow> offs = count_up 0 n step"
  by (simp add: for_offsets_def split: if_splits)

lemma acc_read_distinct: "acc_buf \<noteq> read_buf"
  by (simp add: acc_buf_def read_buf_def)

subsection \<open>The constants of a maximum\<close>

lemma kind_constants:
  "\<forall>k\<in>set [u8, s8, u16, s16, u32, s32, bf16, f16, f32, f64].
     (let ak = (if kind_is_int k then s32 else k);
          ident = reduction_identity True k;
          init = (if kind_is_int k
                  then Lane_int (if kind_is_signed k then - 2147483648 else 0)
                  else Lane_fp Neg_infinity);
          pr = the (encode_lane k ident);
          pi = the (encode_lane ak init);
          pa = the (encode_lane ak ident)
      in encode_lane k ident = Some pr \<and> length pr = nat (kind_size k)
         \<and> decode_lane k pr = Some ident
         \<and> encode_lane ak init = Some pi \<and> length pi = nat (kind_size ak)
         \<and> encode_lane ak ident = Some pa \<and> length pa = nat (kind_size ak)
         \<and> decode_lane ak pi = Some init \<and> decode_lane ak pa = Some ident
         \<and> cast_lane ak ident = Some ident
         \<and> lane_binop ak op_max init ident = Some ident
         \<and> lane_binop ak op_max ident ident = Some ident
         \<and> 0 < kind_size k \<and> 0 < kind_size ak)"
  by code_simp

lemma int_kind_constants:
  "\<forall>k\<in>set [u8, s8, u16, s16, u32, s32].
     (let mult = 4 sdiv kind_size k;
          v = (if kind_is_signed k
               then (if mult = 1 then 0x80000000 else if mult = 2 then 0x80008000 else 0x80808080)
               else 0)
      in (mult = 1 \<or> mult = 2 \<or> mult = 4) \<and> mult * kind_size k = 4
         \<and> encode_lane s32 (Lane_int (wrap_kind s32 (wrap_kind u32 v)))
             = Some (concat (replicate (nat mult) (the (encode_lane k (reduction_identity True k)))))
         \<and> wrap_kind s32 (wrap_kind u32 (if kind_is_signed k then 0x80000000 else 0))
             = (if kind_is_signed k then - 2147483648 else 0))"
  by code_simp

lemma concat_replicate_single: "concat (replicate n [x]) = replicate n x"
  by (induction n) simp_all

lemma acc_kind: "kind (acc_type_init sc cfg) =
    (if kind_is_int (read_kind sc) then s32
     else if is_max (pool_conf cfg) then read_kind sc else f32)
  \<and> elems (acc_type_init sc cfg) = simd (exec_cfg cfg)
  \<and> acc_sc_size sc cfg = kind_size (kind (acc_type_init sc cfg))"
  by (simp add: acc_type_init_def is_int_def read_type_def acc_sc_size_def type_size_def scalar_def)

lemma fill_value_kind:
  assumes "fill_value sc cfg = Inr fv"
  shows "read_kind sc \<in> set [u8, s8, u16, s16, u32, s32, bf16, f16, f32, f64]"
  using assms
  by (cases "read_kind sc") (simp_all add: fill_value_def is_int_def read_type_def Let_def)

lemma acc_init_eval:
  assumes "is_max (pool_conf cfg)" "0 \<le> simd (exec_cfg cfg)"
    "read_kind sc \<in> set [u8, s8, u16, s16, u32, s32, bf16, f16, f32, f64]"
  shows "eval_vec m (acc_init_value sc cfg) =
     Some (if kind_is_int (read_kind sc) then s32 else read_kind sc,
           replicate (nat (simd (exec_cfg cfg)))
             (if kind_is_int (read_kind sc)
              then Lane_int (if kind_is_signed (read_kind sc) then - 2147483648 else 0)
              else Lane_fp Neg_infinity))"
proof (cases "kind_is_int (read_kind sc)")
  case False
  with assms(1,2) show ?thesis
    by (simp add: acc_init_value_def acc_type_init_def is_int_def read_type_def Let_def
          concat_replicate_single cast_lane_def those_replicate)
next
  case True
  with assms(3) have k: "read_kind sc \<in> set [u8, s8, u16, s16, u32, s32]" by auto
  from int_kind_constants k have
    "wrap_kind s32 (wrap_kind u32 (if kind_is_signed (read_kind sc) then 0x80000000 else 0))
       = (if kind_is_signed (read_kind sc) then - 2147483648 else 0)"
    unfolding Let_def by blast
  with True assms(1,2) show ?thesis
    by (simp add: acc_init_value_def acc_type_init_def is_int_def is_signed_def read_type_def Let_def
          concat_replicate_single cast_lane_def split: if_splits)
qed

lemma fill_value_eval:
  assumes fv: "fill_value sc cfg = Inr fv" and mx: "is_max (pool_conf cfg)"
    and sd: "0 \<le> simd (exec_cfg cfg)"
    and dv: "kind_is_int (read_kind sc) \<longrightarrow> 4 dvd simd (exec_cfg cfg)"
  shows "\<exists>kf n lf pf. (\<forall>m. eval_vec m fv = Some (kf, replicate n lf))
     \<and> encode_lane kf lf = Some pf
     \<and> concat (replicate n pf) =
         concat (replicate (nat (simd (exec_cfg cfg)))
           (the (encode_lane (read_kind sc) (reduction_identity True (read_kind sc)))))"
proof (cases "kind_is_int (read_kind sc)")
  case False
  from fill_value_kind [OF fv] kind_constants have
    e: "encode_lane (read_kind sc) (reduction_identity True (read_kind sc))
        = Some (the (encode_lane (read_kind sc) (reduction_identity True (read_kind sc))))"
    unfolding Let_def by blast
  from False have i: "reduction_identity True (read_kind sc) = Lane_fp Neg_infinity"
    by (simp add: reduction_identity_def)
  from False fv mx have f: "fv = Cast (read_type sc cfg)
        (Broadcast (Float_imm Neg_infinity) (simd (exec_cfg cfg)))"
    by (auto simp: fill_value_def is_int_def read_type_def Let_def)
  have "\<forall>m. eval_vec m fv = Some (read_kind sc, replicate (nat (simd (exec_cfg cfg))) (Lane_fp Neg_infinity))"
    using False sd
    by (simp add: f read_type_def concat_replicate_single cast_lane_def those_replicate)
  with e i show ?thesis by metis
next
  case True
  define k where "k = read_kind sc"
  define mult where "mult = 4 sdiv kind_size k"
  define v :: int where "v = (if kind_is_signed k
               then (if mult = 1 then 0x80000000 else if mult = 2 then 0x80008000 else 0x80808080)
               else 0)"
  define pr where "pr = the (encode_lane k (reduction_identity True k))"
  from fill_value_kind [OF fv] True have kin: "k \<in> set [u8, s8, u16, s16, u32, s32]"
    unfolding k_def by auto
  from int_kind_constants kin have
    m: "mult = 1 \<or> mult = 2 \<or> mult = 4" and ms: "mult * kind_size k = 4"
    and e: "encode_lane s32 (Lane_int (wrap_kind s32 (wrap_kind u32 v))) = Some (concat (replicate (nat mult) pr))"
    unfolding Let_def mult_def v_def pr_def by blast+
  from True fv mx have f: "fv = Broadcast (Cast (Type_t s32 1) (Int_imm u32 v)) (simd (exec_cfg cfg) sdiv mult)"
    unfolding v_def mult_def k_def
    by (auto simp: fill_value_def is_int_def is_signed_def read_type_def Let_def split: if_splits)
  have ev: "\<forall>m. eval_vec m fv = Some (s32, replicate (nat (simd (exec_cfg cfg) sdiv mult))
        (Lane_int (wrap_kind s32 (wrap_kind u32 v))))"
    by (simp add: f concat_replicate_single cast_lane_def)
  from True dv have d4: "4 dvd simd (exec_cfg cfg)" by simp
  from m d4 have "mult dvd simd (exec_cfg cfg)" by auto
  then obtain c where c: "simd (exec_cfg cfg) = mult * c" by (auto elim: dvdE)
  from m have mp: "0 < mult" by auto
  with sd c have cp: "0 \<le> c" by (simp add: zero_le_mult_iff)
  have "simd (exec_cfg cfg) sdiv mult = c" using c mp sd by (simp add: sdiv_pos)
  then have n: "nat (simd (exec_cfg cfg) sdiv mult) * nat mult = nat (simd (exec_cfg cfg))"
    using c mp cp by (simp add: nat_mult_distrib mult.commute)
  have "concat (replicate (nat (simd (exec_cfg cfg) sdiv mult)) (concat (replicate (nat mult) pr)))
      = concat (replicate (nat (simd (exec_cfg cfg))) pr)"
    by (simp only: concat_replicate_concat n)
  with ev e show ?thesis unfolding pr_def k_def by metis
qed

subsection \<open>The reduction of a window that is masked out\<close>

lemma eval_load_lanes:
  assumes "\<And>j. j < nat n \<Longrightarrow>
      decode_lane k (read_bytes (m buf) (off + int j * kind_size k) (nat (kind_size k))) = Some (g j)"
  shows "eval_vec m (Load (Type_t k n) buf off) = Some (k, map g [0..<nat n])"
proof -
  have "those (map (\<lambda>j. decode_lane k (read_bytes (m buf) (off + int j * kind_size k) (nat (kind_size k))))
          [0..<nat n]) = Some (map g [0..<nat n])"
    by (rule those_map_Some) (simp add: assms)
  then show ?thesis by simp
qed

lemma map2_upt_replicate:
  "map2 f (map g [0..<n]) (replicate n c) = map (\<lambda>j. f (g j) c) [0..<n]"
  by (simp add: list_eq_iff_nth_eq)

lemma acc_type_init_eq:
  "acc_type_init sc cfg = Type_t (kind (acc_type_init sc cfg)) (simd (exec_cfg cfg))"
  by (simp add: acc_type_init_def read_type_def)

lemma reduce_one:
  fixes sc cfg s0 s1 l m
  defines "sd \<equiv> simd (exec_cfg cfg)" and "rk \<equiv> read_kind sc" and "ak \<equiv> kind (acc_type_init sc cfg)"
    and "a0 \<equiv> s0 * loop_grid cfg 1 + s1"
  assumes mx: "is_max (pool_conf cfg)" and sd: "0 \<le> sd"
    and dr: "decode_lane rk pr = Some ident" and ca: "cast_lane ak ident = Some ident"
    and di: "decode_lane ak pi = Some init" and da: "decode_lane ak pa = Some ident"
    and bi: "lane_binop ak op_max init ident = Some ident"
    and ba: "lane_binop ak op_max ident ident = Some ident"
    and ea: "encode_lane ak ident = Some pa"
    and R: "\<forall>j. 0 \<le> j \<and> j < sd \<longrightarrow>
        read_bytes (m read_buf) (kind_size rk * (l + j)) (nat (kind_size rk)) = pr"
    and J: "\<forall>j. 0 \<le> j \<and> j < sd \<longrightarrow>
        read_bytes (m acc_buf) (kind_size ak * (a0 + j)) (nat (kind_size ak)) \<in> {pi, pa}"
  shows "exec_stmt M it (reduce_store sc cfg (s0, s1, l)) m =
     Some (m(acc_buf := write_bytes (m acc_buf) (kind_size ak * a0) (concat (replicate (nat sd) pa))))"
proof -
  define g where "g j = the (decode_lane ak
      (read_bytes (m acc_buf) (a0 * kind_size ak + int j * kind_size ak) (nat (kind_size ak))))" for j
  have sz: "acc_sc_size sc cfg = kind_size ak"
    by (simp add: acc_sc_size_def type_size_def scalar_def ak_def)
  have at: "acc_type_init sc cfg = Type_t ak sd"
    unfolding ak_def sd_def by (rule acc_type_init_eq)
  have gj: "decode_lane ak (read_bytes (m acc_buf) (a0 * kind_size ak + int j * kind_size ak) (nat (kind_size ak)))
        = Some (g j) \<and> (g j = init \<or> g j = ident)" if j: "j < nat sd" for j
  proof -
    have e: "a0 * kind_size ak + int j * kind_size ak = kind_size ak * (a0 + int j)"
      by (simp add: algebra_simps)
    from j have "0 \<le> int j \<and> int j < sd" by simp
    with J have "read_bytes (m acc_buf) (kind_size ak * (a0 + int j)) (nat (kind_size ak)) \<in> {pi, pa}"
      by blast
    with di da show ?thesis unfolding g_def e by auto
  qed
  have la: "eval_vec m (Load (Type_t ak sd) acc_buf (a0 * kind_size ak)) = Some (ak, map g [0..<nat sd])"
    by (rule eval_load_lanes) (simp add: gj)
  have lr: "eval_vec m (Load (Type_t rk sd) read_buf (l * kind_size rk))
      = Some (rk, map (\<lambda>j. ident) [0..<nat sd])"
  proof (rule eval_load_lanes)
    fix j assume j: "j < nat sd"
    have e: "l * kind_size rk + int j * kind_size rk = kind_size rk * (l + int j)"
      by (simp add: algebra_simps)
    from j have "0 \<le> int j \<and> int j < sd" by simp
    with R have "read_bytes (m read_buf) (kind_size rk * (l + int j)) (nat (kind_size rk)) = pr"
      by blast
    with dr show "decode_lane rk (read_bytes (m read_buf) (l * kind_size rk + int j * kind_size rk)
        (nat (kind_size rk))) = Some ident"
      unfolding e by simp
  qed
  have cr: "eval_vec m (Cast (Type_t ak sd) (Load (Type_t rk sd) read_buf (l * kind_size rk)))
      = Some (ak, replicate (nat sd) ident)"
    using sd by (simp add: lr map_const_upt ca those_replicate del: eval_vec.simps(6))
  have "map2 (lane_binop ak op_max) (map g [0..<nat sd]) (replicate (nat sd) ident)
      = map (\<lambda>j. lane_binop ak op_max (g j) ident) [0..<nat sd]"
    by (rule map2_upt_replicate)
  moreover have "those (map (\<lambda>j. lane_binop ak op_max (g j) ident) [0..<nat sd])
      = Some (map (\<lambda>j. ident) [0..<nat sd])"
  proof (rule those_map_Some)
    fix j assume "j \<in> set [0..<nat sd]"
    then have "j < nat sd" by simp
    from gj [OF this] bi ba show "lane_binop ak op_max (g j) ident = Some ident" by auto
  qed
  ultimately have bo: "eval_vec m (Binary_op op_max (Load (Type_t ak sd) acc_buf (a0 * kind_size ak))
        (Cast (Type_t ak sd) (Load (Type_t rk sd) read_buf (l * kind_size rk))))
      = Some (ak, replicate (nat sd) ident)"
    by (simp add: la cr map_const_upt del: eval_vec.simps(4,6))
  have st: "reduce_store sc cfg (s0, s1, l) = Store acc_buf (a0 * kind_size ak)
      (Binary_op op_max (Load (Type_t ak sd) acc_buf (a0 * kind_size ak))
        (Cast (Type_t ak sd) (Load (Type_t rk sd) read_buf (l * kind_size rk))))"
    using mx by (simp add: reduce_store_def Let_def sz at a0_def read_type_def rk_def sd_def)
  show ?thesis
    unfolding st using exec_store_const [OF bo ea, of M it acc_buf "a0 * kind_size ak"]
    by (simp add: mult.commute)
qed

lemma masked_max_reduction:
  fixes sc cfg M m it0
  defines "sd \<equiv> simd (exec_cfg cfg)" and "rk \<equiv> read_kind sc"
    and "ak \<equiv> kind (acc_type_init sc cfg)" and "asz \<equiv> acc_sc_size sc cfg"
    and "lg1 \<equiv> loop_grid cfg 1"
  assumes ni: "\<not> is_identity (pool_conf cfg)" and mx: "is_max (pool_conf cfg)"
    and ck: "check_idhw sc (pool_conf cfg)"
    and sd1: "1 \<le> sd" and dv: "kind_is_int rk \<longrightarrow> 4 dvd sd"
    and it1: "1 \<le> iterations M" and masked: "\<forall>it x. delivered M it x = None"
    and tiles: "\<forall>(s0, s1, l)\<in>set (read_tiles sc).
        0 \<le> s0 * lg1 + s1 \<and> (s0 * lg1 + s1 + sd) * asz \<le> acc_size sc cfg"
    and red: "reduction sc cfg = Inr (stmt, abuf, atype, al)"
  shows "\<exists>m'. exec_stmt M it0 stmt m = Some m'
     \<and> (\<forall>(s0, s1, l)\<in>set (read_tiles sc).
          eval_vec m' (Load atype abuf ((s0 * lg1 + s1) * asz))
            = Some (kind atype, replicate (nat sd) (reduction_identity True rk)))"
proof -
  define ident where "ident = reduction_identity True rk"
  define init where "init = (if kind_is_int rk
      then Lane_int (if kind_is_signed rk then - 2147483648 else 0) else Lane_fp Neg_infinity)"
  define pr where "pr = the (encode_lane rk ident)"
  define pi where "pi = the (encode_lane ak init)"
  define pa where "pa = the (encode_lane ak ident)"
  define A where "A = acc_size sc cfg"
  define ts where "ts = read_tiles sc"
  from reduction_non_identity [OF ni red] mx obtain offs fv where
    o: "for_offsets A (sd * asz) = Inr offs" and fv: "fill_value sc cfg = Inr fv"
    and fl: "flat stmt = map (\<lambda>i. Store acc_buf i (acc_init_value sc cfg)) offs
        @ [Loop_nest (loop_body sc cfg fv)]"
    and ab: "abuf = acc_buf" and at: "atype = acc_type_init sc cfg"
    unfolding A_def sd_def asz_def by auto
  have kin: "rk \<in> set [u8, s8, u16, s16, u32, s32, bf16, f16, f32, f64]"
    unfolding rk_def by (rule fill_value_kind [OF fv])
  have akd: "ak = (if kind_is_int rk then s32 else rk)"
    unfolding ak_def rk_def using acc_kind [of sc cfg] mx by simp
  have aszd: "asz = kind_size ak"
    unfolding asz_def ak_def using acc_kind [of sc cfg] by simp
  have atd: "acc_type_init sc cfg = Type_t ak sd"
    unfolding ak_def sd_def by (rule acc_type_init_eq)
  from kind_constants kin have
    er: "encode_lane rk ident = Some pr" and lr: "length pr = nat (kind_size rk)"
    and dr: "decode_lane rk pr = Some ident"
    and ei: "encode_lane ak init = Some pi" and li: "length pi = nat (kind_size ak)"
    and ea: "encode_lane ak ident = Some pa" and la: "length pa = nat (kind_size ak)"
    and di: "decode_lane ak pi = Some init" and da: "decode_lane ak pa = Some ident"
    and ca: "cast_lane ak ident = Some ident"
    and bi: "lane_binop ak op_max init ident = Some ident"
    and ba: "lane_binop ak op_max ident ident = Some ident"
    and pr0: "0 < kind_size rk" and pa0: "0 < kind_size ak"
    unfolding Let_def ident_def init_def pr_def pi_def pa_def akd by blast+
  from sd1 have sd0: "0 \<le> sd" by simp
  let ?J = "\<lambda>mm::reg_file. \<forall>q. 0 \<le> q \<and> asz * q < A \<longrightarrow>
      read_bytes (mm acc_buf) (asz * q) (nat asz) \<in> {pi, pa}"
  let ?D = "\<lambda>mm::reg_file. \<forall>(s0, s1, l)\<in>set ts. \<forall>j. 0 \<le> j \<and> j < sd \<longrightarrow>
      read_bytes (mm acc_buf) (asz * (s0 * lg1 + s1 + j)) (nat asz) = pa"
  let ?R = "\<lambda>mm::reg_file. \<forall>(s0, s1, l)\<in>set ts. \<forall>j. 0 \<le> j \<and> j < sd \<longrightarrow>
      read_bytes (mm read_buf) (kind_size rk * (l + j)) (nat (kind_size rk)) = pr"
  have a0: "0 < asz" using pa0 aszd by simp
  \<comment> \<open>The stores of the initial value.\<close>
  have offs: "offs = count_up 0 A (sd * asz)" by (rule for_offsets_Inr [OF o])
  have odv: "\<forall>i\<in>set offs. asz dvd i"
    unfolding offs by (rule count_up_dvd) simp_all
  define os where "os = map (\<lambda>i. i div asz) offs"
  have im: "map (\<lambda>i. Store acc_buf i (acc_init_value sc cfg)) offs
      = map (\<lambda>o_el. Store acc_buf (asz * o_el) (acc_init_value sc cfg)) os"
    unfolding os_def using odv by (simp add: comp_def)
  have iev: "\<And>mm. eval_vec mm (acc_init_value sc cfg) = Some (ak, replicate (nat sd) init)"
    using acc_init_eval [OF mx, of sc] sd0 kin unfolding sd_def rk_def [symmetric] akd init_def
    by (simp add: rk_def)
  from store_run_int [OF iev ei refl li [folded aszd] a0, of M it0 acc_buf os m] obtain m1 where
    e1: "exec_seq M it0 (map (\<lambda>o_el. Store acc_buf (asz * o_el) (acc_init_value sc cfg)) os) (Some m) = Some m1"
    and r1: "\<forall>q. read_bytes (m1 acc_buf) (asz * q) (nat asz) =
            (if \<exists>o_el\<in>set os. o_el \<le> q \<and> q < o_el + int (nat sd) then pi
             else read_bytes (m acc_buf) (asz * q) (nat asz))"
    by blast
  have J1: "?J m1"
  proof (intro allI impI)
    fix q assume q: "0 \<le> q \<and> asz * q < A"
    have "0 < sd * asz" using sd1 a0 by simp
    moreover have "0 \<le> asz * q" using q a0 by simp
    ultimately obtain ob where ob: "ob \<in> set offs" "ob \<le> asz * q" "asz * q < ob + sd * asz"
      using count_up_cover [of "sd * asz" 0 "asz * q" A] q unfolding offs by blast
    from odv ob(1) obtain o' where o': "ob = asz * o'" by (auto elim: dvdE)
    then have "ob div asz = o'" using a0 by simp
    with ob(1) have in_os: "o' \<in> set os" unfolding os_def by force
    from ob(2) o' a0 have le: "o' \<le> q" by simp
    have "asz * q < asz * (o' + sd)" using ob(3) o' by (simp add: algebra_simps)
    with a0 have "q < o' + sd" by simp
    with le in_os sd0 have "\<exists>o_el\<in>set os. o_el \<le> q \<and> q < o_el + int (nat sd)" by auto
    with r1 show "read_bytes (m1 acc_buf) (asz * q) (nat asz) \<in> {pi, pa}" by simp
  qed
  \<comment> \<open>The stores of the reduction, for the tiles of a list.\<close>
  have tb: "0 \<le> s0 * lg1 + s1 + j \<and> asz * (s0 * lg1 + s1 + j) < A"
    if "(s0, s1, l) \<in> set ts" "0 \<le> j \<and> j < sd" for s0 s1 l j
  proof -
    from that(1) tiles have t: "0 \<le> s0 * lg1 + s1" "(s0 * lg1 + s1 + sd) * asz \<le> A"
      unfolding ts_def A_def by auto
    from that(2) have "s0 * lg1 + s1 + j < s0 * lg1 + s1 + sd" by simp
    with a0 have "asz * (s0 * lg1 + s1 + j) < asz * (s0 * lg1 + s1 + sd)" by simp
    with t that(2) show ?thesis by (simp add: mult.commute)
  qed
  have RR: "\<exists>m'. exec_seq M i (map (reduce_store sc cfg) us) (Some mm) = Some m'
        \<and> (\<forall>b. b \<noteq> acc_buf \<longrightarrow> m' b = mm b)
        \<and> (\<forall>q. read_bytes (m' acc_buf) (asz * q) (nat asz) =
              (if \<exists>(s0, s1, l)\<in>set us. s0 * lg1 + s1 \<le> q \<and> q < s0 * lg1 + s1 + sd then pa
               else read_bytes (mm acc_buf) (asz * q) (nat asz)))"
    if "set us \<subseteq> set ts" "?R mm" "?J mm" for us mm i
    using that
  proof (induction us arbitrary: mm)
    case Nil
    show ?case by (simp add: exec_seq_Nil)
  next
    case (Cons t us)
    obtain s0 s1 l where t: "t = (s0, s1, l)" by (cases t) auto
    with Cons.prems(1) have tin: "(s0, s1, l) \<in> set ts" by simp
    define m2 where "m2 = mm(acc_buf := write_bytes (mm acc_buf) (asz * (s0 * lg1 + s1))
        (concat (replicate (nat sd) pa)))"
    have Rt: "\<forall>j. 0 \<le> j \<and> j < sd \<longrightarrow>
        read_bytes (mm read_buf) (kind_size rk * (l + j)) (nat (kind_size rk)) = pr"
      using Cons.prems(2) tin by blast
    have Jt: "\<forall>j. 0 \<le> j \<and> j < sd \<longrightarrow>
        read_bytes (mm acc_buf) (kind_size ak * (s0 * lg1 + s1 + j)) (nat (kind_size ak)) \<in> {pi, pa}"
    proof (intro allI impI)
      fix j assume j: "0 \<le> j \<and> j < sd"
      from tb [OF tin j] Cons.prems(3)
      show "read_bytes (mm acc_buf) (kind_size ak * (s0 * lg1 + s1 + j)) (nat (kind_size ak)) \<in> {pi, pa}"
        unfolding aszd by blast
    qed
    have x: "exec_stmt M i (reduce_store sc cfg (s0, s1, l)) mm = Some m2"
      unfolding m2_def aszd lg1_def sd_def ak_def
      by (rule reduce_one [OF mx sd0 [unfolded sd_def] dr [unfolded rk_def] ca [unfolded ak_def]
            di [unfolded ak_def] da [unfolded ak_def] bi [unfolded ak_def] ba [unfolded ak_def]
            ea [unfolded ak_def] Rt [unfolded rk_def sd_def] Jt [unfolded ak_def sd_def lg1_def]])
    have r2: "read_bytes (m2 acc_buf) (asz * q) (nat asz) =
        (if s0 * lg1 + s1 \<le> q \<and> q < s0 * lg1 + s1 + sd then pa
         else read_bytes (mm acc_buf) (asz * q) (nat asz))" for q
      unfolding m2_def using read_write_block_int [OF la [folded aszd] a0, of "mm acc_buf" "s0 * lg1 + s1" "nat sd" q] sd0
      by simp
    have R2: "?R m2" using Cons.prems(2) acc_read_distinct by (simp add: m2_def)
    have J2: "?J m2"
    proof (intro allI impI)
      fix q assume "0 \<le> q \<and> asz * q < A"
      with Cons.prems(3) have "read_bytes (mm acc_buf) (asz * q) (nat asz) \<in> {pi, pa}" by blast
      then show "read_bytes (m2 acc_buf) (asz * q) (nat asz) \<in> {pi, pa}" by (simp add: r2)
    qed
    from Cons.prems(1) have "set us \<subseteq> set ts" by simp
    from Cons.IH [of m2, OF this R2 J2] obtain m' where
      e: "exec_seq M i (map (reduce_store sc cfg) us) (Some m2) = Some m'"
      and o': "\<forall>b. b \<noteq> acc_buf \<longrightarrow> m' b = m2 b"
      and r': "\<forall>q. read_bytes (m' acc_buf) (asz * q) (nat asz) =
              (if \<exists>(s0, s1, l)\<in>set us. s0 * lg1 + s1 \<le> q \<and> q < s0 * lg1 + s1 + sd then pa
               else read_bytes (m2 acc_buf) (asz * q) (nat asz))"
      by blast
    have "exec_seq M i (map (reduce_store sc cfg) (t # us)) (Some mm) = Some m'"
      using x e by (simp add: exec_seq_Cons t)
    moreover have "\<forall>b. b \<noteq> acc_buf \<longrightarrow> m' b = mm b" using o' by (simp add: m2_def)
    moreover have "\<forall>q. read_bytes (m' acc_buf) (asz * q) (nat asz) =
              (if \<exists>(s0, s1, l)\<in>set (t # us). s0 * lg1 + s1 \<le> q \<and> q < s0 * lg1 + s1 + sd then pa
               else read_bytes (mm acc_buf) (asz * q) (nat asz))"
      using r' r2 by (auto simp: t)
    ultimately show ?case by blast
  qed
  \<comment> \<open>One iteration of the loop nest.\<close>
  from fill_value_eval [OF fv mx sd0 [unfolded sd_def] dv [unfolded sd_def rk_def]] obtain kf nf lf pf where
    fev: "\<And>mm. eval_vec mm fv = Some (kf, replicate nf lf)" and fen: "encode_lane kf lf = Some pf"
    and fpat: "concat (replicate nf pf) = concat (replicate (nat sd) pr)"
    unfolding pr_def ident_def rk_def sd_def by blast
  have fm: "map (fill_store sc fv) ts
      = map (\<lambda>o_el. Store read_buf (kind_size rk * o_el) fv) (map (\<lambda>(s0, s1, l). l) ts)"
    by (simp add: fill_store_def split_def comp_def rk_def mult.commute)
  have body: "\<exists>m'. exec_seq M i (flat (loop_body sc cfg fv)) (Some mm) = Some m' \<and> ?J m' \<and> ?D m'"
    if J: "?J mm" for mm i
  proof -
    from store_run_int [OF fev fen fpat lr pr0, of M i read_buf "map (\<lambda>(s0, s1, l). l) ts" mm]
    obtain m2 where
      e2: "exec_seq M i (map (fill_store sc fv) ts) (Some mm) = Some m2"
      and o2: "\<forall>b. b \<noteq> read_buf \<longrightarrow> m2 b = mm b"
      and r2: "\<forall>q. read_bytes (m2 read_buf) (kind_size rk * q) (nat (kind_size rk)) =
            (if \<exists>o_el\<in>set (map (\<lambda>(s0, s1, l). l) ts). o_el \<le> q \<and> q < o_el + int (nat sd) then pr
             else read_bytes (mm read_buf) (kind_size rk * q) (nat (kind_size rk)))"
      unfolding fm by blast
    have R2: "?R m2"
    proof (intro ballI allI impI, clarify)
      fix s0 s1 l j assume tin: "(s0, s1, l) \<in> set ts" and j: "0 \<le> j" "j < sd"
      from tin have "l \<in> set (map (\<lambda>(s0, s1, l). l) ts)" by force
      moreover from j sd0 have "l \<le> l + j \<and> l + j < l + int (nat sd)" by simp
      ultimately have "\<exists>o_el\<in>set (map (\<lambda>(s0, s1, l). l) ts). o_el \<le> l + j \<and> l + j < o_el + int (nat sd)"
        by blast
      with r2 show "read_bytes (m2 read_buf) (kind_size rk * (l + j)) (nat (kind_size rk)) = pr"
        by simp
    qed
    have J2: "?J m2" using J o2 acc_read_distinct by simp
    have x: "exec_stmt M i read_stmt m2 = Some m2"
      using masked by (simp add: read_stmt_def)
    from RR [of ts m2 i, OF subset_refl R2 J2] obtain m' where
      e: "exec_seq M i (map (reduce_store sc cfg) ts) (Some m2) = Some m'"
      and r': "\<forall>q. read_bytes (m' acc_buf) (asz * q) (nat asz) =
              (if \<exists>(s0, s1, l)\<in>set ts. s0 * lg1 + s1 \<le> q \<and> q < s0 * lg1 + s1 + sd then pa
               else read_bytes (m2 acc_buf) (asz * q) (nat asz))"
      by blast
    have "exec_seq M i (flat (loop_body sc cfg fv)) (Some mm) = Some m'"
      using ck e2 x e by (simp add: flat_loop_body exec_seq_append exec_seq_Cons ts_def)
    moreover have "?J m'"
    proof (intro allI impI)
      fix q assume "0 \<le> q \<and> asz * q < A"
      with J2 have "read_bytes (m2 acc_buf) (asz * q) (nat asz) \<in> {pi, pa}" by blast
      with r' show "read_bytes (m' acc_buf) (asz * q) (nat asz) \<in> {pi, pa}" by simp
    qed
    moreover have "?D m'"
    proof (intro ballI allI impI, clarify)
      fix s0 s1 l j assume tin: "(s0, s1, l) \<in> set ts" and j: "0 \<le> j" "j < sd"
      from j have "s0 * lg1 + s1 \<le> s0 * lg1 + s1 + j \<and> s0 * lg1 + s1 + j < s0 * lg1 + s1 + sd"
        by simp
      with tin have "\<exists>(s0', s1', l')\<in>set ts. s0' * lg1 + s1' \<le> s0 * lg1 + s1 + j
          \<and> s0 * lg1 + s1 + j < s0' * lg1 + s1' + sd"
        by blast
      with r' show "read_bytes (m' acc_buf) (asz * (s0 * lg1 + s1 + j)) (nat asz) = pa" by simp
    qed
    ultimately show ?thesis by blast
  qed
  \<comment> \<open>The iterations of the loop nest.\<close>
  have loop: "\<exists>m'. fold (\<lambda>i r. case r of None \<Rightarrow> None
                 | Some m' \<Rightarrow> exec_stmt M i (loop_body sc cfg fv) m') [0..<n] (Some mm) = Some m'
        \<and> ?J m' \<and> (0 < n \<longrightarrow> ?D m')"
    if "?J mm" for n mm
    using that
  proof (induction n)
    case 0
    then show ?case by simp
  next
    case (Suc n)
    from Suc.IH [OF Suc.prems] obtain m2 where
      f: "fold (\<lambda>i r. case r of None \<Rightarrow> None
                 | Some m' \<Rightarrow> exec_stmt M i (loop_body sc cfg fv) m') [0..<n] (Some mm) = Some m2"
      and J2: "?J m2" by blast
    from body [of m2 n, OF J2] obtain m' where
      b: "exec_seq M n (flat (loop_body sc cfg fv)) (Some m2) = Some m'" and J': "?J m'" and D': "?D m'"
      by blast
    have "fold (\<lambda>i r. case r of None \<Rightarrow> None
                 | Some m' \<Rightarrow> exec_stmt M i (loop_body sc cfg fv) m') [0..<Suc n] (Some mm) = Some m'"
      using f b by (simp add: exec_stmt_flat [of M n "loop_body sc cfg fv"])
    with J' D' show ?case by blast
  qed
  from loop [of m1 "iterations M", OF J1] it1 obtain m' where
    l: "exec_stmt M it0 (Loop_nest (loop_body sc cfg fv)) m1 = Some m'" and D: "?D m'"
    by auto
  have run: "exec_stmt M it0 stmt m = Some m'"
    unfolding exec_stmt_flat [of M it0 stmt] fl im exec_seq_append e1
    using l by (simp add: exec_seq_def)
  have "eval_vec m' (Load atype abuf ((s0 * lg1 + s1) * asz))
      = Some (kind atype, replicate (nat sd) (reduction_identity True rk))"
    if tin: "(s0, s1, l) \<in> set ts" for s0 s1 l
  proof -
    have "eval_vec m' (Load (Type_t ak sd) acc_buf ((s0 * lg1 + s1) * asz))
        = Some (ak, map (\<lambda>j. ident) [0..<nat sd])"
    proof (rule eval_load_lanes)
      fix j assume j: "j < nat sd"
      have e: "(s0 * lg1 + s1) * asz + int j * kind_size ak = asz * (s0 * lg1 + s1 + int j)"
        by (simp add: aszd algebra_simps)
      from j have "0 \<le> int j \<and> int j < sd" by simp
      with D tin have "read_bytes (m' acc_buf) (asz * (s0 * lg1 + s1 + int j)) (nat asz) = pa"
        by blast
      with da show "decode_lane ak (read_bytes (m' acc_buf) ((s0 * lg1 + s1) * asz + int j * kind_size ak)
          (nat (kind_size ak))) = Some ident"
        unfolding e by (simp add: aszd)
    qed
    then show ?thesis
      by (simp add: at atd ab map_const_upt ident_def del: eval_vec.simps)
  qed
  with run show ?thesis unfolding ts_def by blast
qed
lemma reduction_starts_at_identity:
  assumes "\<not> is_identity (pool_conf cfg)" "reduction sc cfg = Inr (stmt, abuf, atype, al)"
  shows "\<exists>offs fv m.
      for_offsets (acc_size sc cfg) (simd (exec_cfg cfg) * acc_sc_size sc cfg) = Inr offs
      \<and> fill_value sc cfg = Inr fv
      \<and> abuf = acc_buf
      \<and> flat stmt =
          map (\<lambda>i. Store acc_buf i (acc_init_value sc cfg)) offs
          @ [Loop_nest (loop_body sc cfg fv)]
          @ (if is_max (pool_conf cfg) then []
             else map (\<lambda>i. Store acc_buf i (normalize_value sc cfg i)) offs)
      \<and> flat (loop_body sc cfg fv) =
          (if check_idhw sc (pool_conf cfg) then map (fill_store sc fv) (read_tiles sc) else [])
          @ Access send_load src_buf read_buf (Some False) # map (reduce_store sc cfg) (read_tiles sc)
      \<and> stored_elems (kind (acc_type_init sc cfg)) (acc_init_value sc cfg) =
          Some (replicate (nat (simd (exec_cfg cfg)))
            (if kind_is_int (read_kind sc)
             then Lane_int (if is_max (pool_conf cfg) \<and> kind_is_signed (read_kind sc)
                            then most_negative s32 else 0)
             else Lane_fp (if is_max (pool_conf cfg) then Neg_infinity else Zero_f)))
      \<and> stored_elems (read_kind sc) fv =
          Some (replicate m (reduction_identity (is_max (pool_conf cfg)) (read_kind sc)))
      \<and> (0 \<le> simd (exec_cfg cfg) \<and> 4 dvd simd (exec_cfg cfg) \<longrightarrow> m = nat (simd (exec_cfg cfg)))"
proof -
  from reduction_non_identity [OF assms] obtain offs fv where
    o: "for_offsets (acc_size sc cfg) (simd (exec_cfg cfg) * acc_sc_size sc cfg) = Inr offs"
    and fv: "fill_value sc cfg = Inr fv"
    and ab: "abuf = acc_buf"
    and f: "flat stmt = map (\<lambda>i. Store acc_buf i (acc_init_value sc cfg)) offs
        @ [Loop_nest (loop_body sc cfg fv)]
        @ (if is_max (pool_conf cfg) then []
           else map (\<lambda>i. Store acc_buf i (normalize_value sc cfg i)) offs)"
    by blast
  from fill_lanes [OF fv] obtain m where
    m: "stored_elems (read_kind sc) fv =
          Some (replicate m (reduction_identity (is_max (pool_conf cfg)) (read_kind sc)))"
    and ml: "0 \<le> simd (exec_cfg cfg) \<and> 4 dvd simd (exec_cfg cfg) \<longrightarrow> m = nat (simd (exec_cfg cfg))"
    by blast
  have b: "flat (loop_body sc cfg fv) =
      (if check_idhw sc (pool_conf cfg) then map (fill_store sc fv) (read_tiles sc) else [])
      @ Access send_load src_buf read_buf (Some False) # map (reduce_store sc cfg) (read_tiles sc)"
    unfolding flat_loop_body read_stmt_def by (rule refl)
  from o fv ab f b m ml acc_init_lanes [of sc cfg] show ?thesis by blast
qed

text \<open>
  Claim C4. In a build that is not an identity the statement of the reduction starts
  with stores of the initial value into every accumulator vector; each lane of that
  value is negative infinity for a floating-point maximum, the most negative s32 for
  the maximum of a signed integer source, and zero for a sum and for the maximum of
  an unsigned source. The body of the loop nest starts, if and only if one of the three
  spatial boundary checks is active, with one store for each tile into the read
  buffer, at the byte offset of the tile, of a value whose lanes are the identity of
  the reduction for the source kind; the load of the source, which does not zero the
  buffer, and one store of the reduction for each tile follow, which combines the
  accumulator vector of the tile with the vector read at the offset of the fill, by
  the maximum for a max pooling. Run on a machine where every source element is
  masked out in every iteration, from any registers, with a vector width that is a
  multiple of four for an integer source and accumulator vectors that lie inside the
  accumulator buffer, the reduction of a max pooling ends with every lane of every
  accumulator vector of a tile at the identity of the maximum for the source kind:
  the most negative value of a signed integer kind, negative infinity for a
  floating-point kind, zero for an unsigned kind.
\<close>

theorem accumulators_start_at_identity:
  "(\<not> is_identity (pool_conf cfg) \<longrightarrow>
      (\<forall>stmt abuf atype al. reduction sc cfg = Inr (stmt, abuf, atype, al) \<longrightarrow>
         (\<exists>offs fv m.
            for_offsets (acc_size sc cfg) (simd (exec_cfg cfg) * acc_sc_size sc cfg) = Inr offs
            \<and> fill_value sc cfg = Inr fv
            \<and> abuf = acc_buf
            \<and> flat stmt =
                map (\<lambda>i. Store acc_buf i (acc_init_value sc cfg)) offs
                @ [Loop_nest (loop_body sc cfg fv)]
                @ (if is_max (pool_conf cfg) then []
                   else map (\<lambda>i. Store acc_buf i (normalize_value sc cfg i)) offs)
            \<and> flat (loop_body sc cfg fv) =
                (if check_idhw sc (pool_conf cfg) then map (fill_store sc fv) (read_tiles sc) else [])
                @ Access send_load src_buf read_buf (Some False) # map (reduce_store sc cfg) (read_tiles sc)
            \<and> stored_elems (kind (acc_type_init sc cfg)) (acc_init_value sc cfg) =
                Some (replicate (nat (simd (exec_cfg cfg)))
                  (if kind_is_int (read_kind sc)
                   then Lane_int (if is_max (pool_conf cfg) \<and> kind_is_signed (read_kind sc)
                                  then most_negative s32 else 0)
                   else Lane_fp (if is_max (pool_conf cfg) then Neg_infinity else Zero_f)))
            \<and> stored_elems (read_kind sc) fv =
                Some (replicate m (reduction_identity (is_max (pool_conf cfg)) (read_kind sc)))
            \<and> (0 \<le> simd (exec_cfg cfg) \<and> 4 dvd simd (exec_cfg cfg) \<longrightarrow> m = nat (simd (exec_cfg cfg))))))
   \<and> (\<forall>v s0 s1 l. fill_store sc v (s0, s1, l) = Store read_buf (l * kind_size (read_kind sc)) v)
   \<and> (\<forall>s0 s1 l. reduce_store sc cfg (s0, s1, l) =
         Store acc_buf ((s0 * loop_grid cfg 1 + s1) * acc_sc_size sc cfg)
           (Binary_op (if is_max (pool_conf cfg) then op_max else op_add)
              (Load (acc_type_init sc cfg) acc_buf ((s0 * loop_grid cfg 1 + s1) * acc_sc_size sc cfg))
              (Cast (acc_type_init sc cfg)
                 (Load (read_type sc cfg) read_buf (l * kind_size (read_kind sc))))))
   \<and> (check_idhw sc (pool_conf cfg) \<longleftrightarrow>
         need_src_or_dst_check sc (\<not> is_backward (pool_conf cfg)) (od (pool_conf cfg))
           (id_dim (pool_conf cfg)) (kd (pool_conf cfg)) (f_pad (pool_conf cfg))
           (stride_d (pool_conf cfg)) (dd (pool_conf cfg))
         \<or> need_src_or_dst_check sc (\<not> is_backward (pool_conf cfg)) (oh (pool_conf cfg))
           (ih (pool_conf cfg)) (kh (pool_conf cfg)) (t_pad (pool_conf cfg))
           (stride_h (pool_conf cfg)) (dh (pool_conf cfg))
         \<or> need_src_or_dst_check sc (\<not> is_backward (pool_conf cfg)) (ow (pool_conf cfg))
           (iw (pool_conf cfg)) (kw (pool_conf cfg)) (l_pad (pool_conf cfg))
           (stride_w (pool_conf cfg)) (dw (pool_conf cfg)))
   \<and> (kind_is_int k \<and> kind_size k \<le> 4 \<longrightarrow>
        max (most_negative s32) (most_negative k) = most_negative k
        \<and> reduction_identity True k = Lane_int (most_negative k)
        \<and> reduction_identity False k = Lane_int 0
        \<and> (\<not> kind_is_signed k \<longrightarrow> most_negative k = 0)
        \<and> (kind_is_signed k \<longrightarrow> most_negative k = - (2 ^ (nat (8 * kind_size k) - 1))))
   \<and> (\<not> kind_is_int k \<longrightarrow>
        reduction_identity True k = Lane_fp Neg_infinity \<and> reduction_identity False k = Lane_fp Zero_f)
   \<and> (\<not> is_identity (pool_conf cfg) \<and> is_max (pool_conf cfg) \<and> check_idhw sc (pool_conf cfg)
        \<and> 1 \<le> simd (exec_cfg cfg)
        \<and> (kind_is_int (read_kind sc) \<longrightarrow> 4 dvd simd (exec_cfg cfg))
        \<and> 1 \<le> iterations M \<and> (\<forall>it x. delivered M it x = None)
        \<and> (\<forall>(s0, s1, l)\<in>set (read_tiles sc).
              0 \<le> s0 * loop_grid cfg 1 + s1
              \<and> (s0 * loop_grid cfg 1 + s1 + simd (exec_cfg cfg)) * acc_sc_size sc cfg \<le> acc_size sc cfg)
        \<longrightarrow>
        (\<forall>stmt abuf atype al. reduction sc cfg = Inr (stmt, abuf, atype, al) \<longrightarrow>
           (\<exists>m'. exec_stmt M it0 stmt m0 = Some m'
              \<and> (\<forall>(s0, s1, l)\<in>set (read_tiles sc).
                    eval_vec m' (Load atype abuf ((s0 * loop_grid cfg 1 + s1) * acc_sc_size sc cfg))
                      = Some (kind atype, replicate (nat (simd (exec_cfg cfg)))
                                (reduction_identity True (read_kind sc)))))))"
  (is "?build \<and> ?fill \<and> ?reduce \<and> ?checks \<and> ?integers \<and> ?floats \<and> ?masked")
proof -
  have p1: ?build
    by (intro impI allI) (rule reduction_starts_at_identity)
  have p2: ?fill
    by (simp add: fill_store_def)
  have p3: ?reduce
    by (simp add: reduce_store_def Let_def)
  have p4: ?checks
    by (simp add: check_idhw_def check_id_def check_ih_def check_iw_def)
  have p5: ?integers
    using max_identity [of k] by (simp add: reduction_identity_def) (simp add: most_negative_def)
  have p6: ?floats
    by (simp add: reduction_identity_def)
  have p7: ?masked
  proof (intro impI allI)
    fix stmt abuf atype al
    assume h: "\<not> is_identity (pool_conf cfg) \<and> is_max (pool_conf cfg) \<and> check_idhw sc (pool_conf cfg)
        \<and> 1 \<le> simd (exec_cfg cfg)
        \<and> (kind_is_int (read_kind sc) \<longrightarrow> 4 dvd simd (exec_cfg cfg))
        \<and> 1 \<le> iterations M \<and> (\<forall>it x. delivered M it x = None)
        \<and> (\<forall>(s0, s1, l)\<in>set (read_tiles sc).
              0 \<le> s0 * loop_grid cfg 1 + s1
              \<and> (s0 * loop_grid cfg 1 + s1 + simd (exec_cfg cfg)) * acc_sc_size sc cfg \<le> acc_size sc cfg)"
      and r: "reduction sc cfg = Inr (stmt, abuf, atype, al)"
    from h have a: "\<not> is_identity (pool_conf cfg)" "is_max (pool_conf cfg)" "check_idhw sc (pool_conf cfg)"
      "1 \<le> simd (exec_cfg cfg)" "kind_is_int (read_kind sc) \<longrightarrow> 4 dvd simd (exec_cfg cfg)"
      "1 \<le> iterations M" "\<forall>it x. delivered M it x = None"
      "\<forall>(s0, s1, l)\<in>set (read_tiles sc).
              0 \<le> s0 * loop_grid cfg 1 + s1
              \<and> (s0 * loop_grid cfg 1 + s1 + simd (exec_cfg cfg)) * acc_sc_size sc cfg \<le> acc_size sc cfg"
      by simp_all
    show "\<exists>m'. exec_stmt M it0 stmt m0 = Some m'
              \<and> (\<forall>(s0, s1, l)\<in>set (read_tiles sc).
                    eval_vec m' (Load atype abuf ((s0 * loop_grid cfg 1 + s1) * acc_sc_size sc cfg))
                      = Some (kind atype, replicate (nat (simd (exec_cfg cfg)))
                                (reduction_identity True (read_kind sc))))"
      by (rule masked_max_reduction [OF a r])
  qed
  show ?thesis
    by (intro conjI) (fact p1 p2 p3 p4 p5 p6 p7)+
qed

theorem accumulators_start_at_identity_witness:
  "\<not> is_identity (pool_conf ex_cfg3) \<and> \<not> isl (reduction (ex_sched ex_cfg3) ex_cfg3)
   \<and> check_idhw (ex_sched ex_cfg3) (pool_conf ex_cfg3) \<and> is_max (pool_conf ex_cfg3)
   \<and> (\<exists>fv. fill_value (ex_sched ex_cfg3) ex_cfg3 = Inr fv
        \<and> flat (fst (projr (reduction (ex_sched ex_cfg3) ex_cfg3))) =
            map (\<lambda>i. Store acc_buf i (acc_init_value (ex_sched ex_cfg3) ex_cfg3)) [0, 64]
            @ [Loop_nest (loop_body (ex_sched ex_cfg3) ex_cfg3 fv)]
        \<and> stored_elems s8 fv = Some (replicate 16 (Lane_int (- 128))))
   \<and> stored_elems s32 (acc_init_value (ex_sched ex_cfg3) ex_cfg3) = Some (replicate 16 (Lane_int (- 2147483648)))
   \<and> 1 \<le> simd (exec_cfg ex_cfg3) \<and> 4 dvd simd (exec_cfg ex_cfg3) \<and> 1 \<le> iterations ex_machine
   \<and> read_tiles (ex_sched ex_cfg3) = [(0, 0, 0), (0, 16, 16)]
   \<and> (16 + simd (exec_cfg ex_cfg3)) * acc_sc_size (ex_sched ex_cfg3) ex_cfg3
        \<le> acc_size (ex_sched ex_cfg3) ex_cfg3
   \<and> (\<exists>m'. exec_stmt ex_machine 0 (fst (projr (reduction (ex_sched ex_cfg3) ex_cfg3))) ex_regs = Some m'
        \<and> eval_vec m' (Load (Type_t s32 16) acc_buf 0) = Some (s32, replicate 16 (Lane_int (- 128)))
        \<and> eval_vec m' (Load (Type_t s32 16) acc_buf 64) = Some (s32, replicate 16 (Lane_int (- 128))))"
proof -
  have n: "\<not> is_identity (pool_conf ex_cfg3)" by code_simp
  have i: "\<not> isl (reduction (ex_sched ex_cfg3) ex_cfg3)" by code_simp
  then obtain stmt abuf atype al where r: "reduction (ex_sched ex_cfg3) ex_cfg3 = Inr (stmt, abuf, atype, al)"
    by (cases "reduction (ex_sched ex_cfg3) ex_cfg3") auto
  have t: "map_sum id (\<lambda>(s, b, t, a). (b, t)) (reduction (ex_sched ex_cfg3) ex_cfg3)
      = Inr (acc_buf, Type_t s32 16)"
    by code_simp
  with r have bt: "abuf = acc_buf" "atype = Type_t s32 16" by simp_all
  have c: "check_idhw (ex_sched ex_cfg3) (pool_conf ex_cfg3) \<and> is_max (pool_conf ex_cfg3)" by code_simp
  have o: "for_offsets (acc_size (ex_sched ex_cfg3) ex_cfg3)
             (simd (exec_cfg ex_cfg3) * acc_sc_size (ex_sched ex_cfg3) ex_cfg3) = Inr [0, 64]"
    by code_simp
  have v: "read_kind (ex_sched ex_cfg3) = s8 \<and> simd (exec_cfg ex_cfg3) = 16
      \<and> kind (acc_type_init (ex_sched ex_cfg3) ex_cfg3) = s32
      \<and> most_negative s8 = - 128 \<and> most_negative s32 = - 2147483648
      \<and> reduction_identity True s8 = Lane_int (- 128)
      \<and> loop_grid ex_cfg3 1 = 32 \<and> acc_sc_size (ex_sched ex_cfg3) ex_cfg3 = 4
      \<and> acc_size (ex_sched ex_cfg3) ex_cfg3 = 128
      \<and> read_tiles (ex_sched ex_cfg3) = [(0, 0, 0), (0, 16, 16)]"
    by code_simp
  have w: "1 \<le> iterations ex_machine \<and> (\<forall>it x. delivered ex_machine it x = None)"
    by (simp add: ex_machine_def)
  have h: "\<not> is_identity (pool_conf ex_cfg3) \<and> is_max (pool_conf ex_cfg3)
        \<and> check_idhw (ex_sched ex_cfg3) (pool_conf ex_cfg3)
        \<and> 1 \<le> simd (exec_cfg ex_cfg3)
        \<and> (kind_is_int (read_kind (ex_sched ex_cfg3)) \<longrightarrow> 4 dvd simd (exec_cfg ex_cfg3))
        \<and> 1 \<le> iterations ex_machine \<and> (\<forall>it x. delivered ex_machine it x = None)
        \<and> (\<forall>(s0, s1, l)\<in>set (read_tiles (ex_sched ex_cfg3)).
              0 \<le> s0 * loop_grid ex_cfg3 1 + s1
              \<and> (s0 * loop_grid ex_cfg3 1 + s1 + simd (exec_cfg ex_cfg3)) * acc_sc_size (ex_sched ex_cfg3) ex_cfg3
                  \<le> acc_size (ex_sched ex_cfg3) ex_cfg3)"
    using n c w v by simp
  note inst = accumulators_start_at_identity [of ex_cfg3 "ex_sched ex_cfg3" s8 ex_machine 0 ex_regs]
  from inst n r o c v have
    s: "\<exists>fv. fill_value (ex_sched ex_cfg3) ex_cfg3 = Inr fv
        \<and> flat stmt =
            map (\<lambda>i. Store acc_buf i (acc_init_value (ex_sched ex_cfg3) ex_cfg3)) [0, 64]
            @ [Loop_nest (loop_body (ex_sched ex_cfg3) ex_cfg3 fv)]
        \<and> stored_elems s8 fv = Some (replicate 16 (Lane_int (- 128)))"
    and a: "stored_elems s32 (acc_init_value (ex_sched ex_cfg3) ex_cfg3) = Some (replicate 16 (Lane_int (- 2147483648)))"
    by auto
  from inst h r have
    "\<exists>m'. exec_stmt ex_machine 0 stmt ex_regs = Some m'
        \<and> (\<forall>(s0, s1, l)\<in>set (read_tiles (ex_sched ex_cfg3)).
              eval_vec m' (Load atype abuf ((s0 * loop_grid ex_cfg3 1 + s1) * acc_sc_size (ex_sched ex_cfg3) ex_cfg3))
                = Some (kind atype, replicate (nat (simd (exec_cfg ex_cfg3)))
                          (reduction_identity True (read_kind (ex_sched ex_cfg3)))))"
    by blast
  with v bt have
    e: "\<exists>m'. exec_stmt ex_machine 0 stmt ex_regs = Some m'
        \<and> eval_vec m' (Load (Type_t s32 16) acc_buf 0) = Some (s32, replicate 16 (Lane_int (- 128)))
        \<and> eval_vec m' (Load (Type_t s32 16) acc_buf 64) = Some (s32, replicate 16 (Lane_int (- 128)))"
    by (auto simp del: eval_vec.simps)
  from n i c s a e v w show ?thesis by (simp add: r del: eval_vec.simps)
qed

subsection \<open>The divisor of an average\<close>






text \<open>
  Claim C6, as amended. For one axis with input extent 5, kernel extent 3, stride 1
  and no padding there are three output positions, and the clamped window is 3 at
  each of them: the window never leaves the input. With a padding of 1 there are five
  output positions, the clamped window is 2 at the first and the last and 3 at the
  three in between. Both agree with the direct count of the window positions that
  fall inside the input.
\<close>

theorem overlap_volume_kernel3_input5:
  "(0 \<le> o_pos \<and> o_pos \<le> 2 \<longrightarrow>
      eval_int (\<lambda>v. o_pos) (dim (Var ''o'') 1 0 3 5) = Some 3 \<and> overlap_count o_pos 1 0 3 5 = 3)
   \<and> (0 \<le> o_pos \<and> o_pos \<le> 4 \<longrightarrow>
      eval_int (\<lambda>v. o_pos) (dim (Var ''o'') 1 1 3 5) = Some (if o_pos = 0 \<or> o_pos = 4 then 2 else 3)
      \<and> overlap_count o_pos 1 1 3 5 = (if o_pos = 0 \<or> o_pos = 4 then 2 else 3))"
proof (intro conjI impI)
  assume a: "0 \<le> o_pos \<and> o_pos \<le> 2"
  then show "eval_int (\<lambda>v. o_pos) (dim (Var ''o'') 1 0 3 5) = Some 3"
    by (simp add: dim_def)
  from a consider "o_pos = 0" | "o_pos = 1" | "o_pos = 2" by linarith
  then show "overlap_count o_pos 1 0 3 5 = 3"
    by cases (simp_all add: overlap_count_def upto.simps)
next
  assume a: "0 \<le> o_pos \<and> o_pos \<le> 4"
  then show "eval_int (\<lambda>v. o_pos) (dim (Var ''o'') 1 1 3 5) = Some (if o_pos = 0 \<or> o_pos = 4 then 2 else 3)"
    by (auto simp: dim_def)
  from a consider "o_pos = 0" | "o_pos = 1" | "o_pos = 2" | "o_pos = 3" | "o_pos = 4" by linarith
  then show "overlap_count o_pos 1 1 3 5 = (if o_pos = 0 \<or> o_pos = 4 then 2 else 3)"
    by cases (simp_all add: overlap_count_def upto.simps)
qed

theorem overlap_volume_kernel3_input5_witness:
  "(0::int) \<le> 0 \<and> (0::int) \<le> 2
   \<and> eval_int (\<lambda>v. 0) (dim (Var ''o'') 1 0 3 5) = Some 3 \<and> overlap_count 0 1 0 3 5 = 3
   \<and> eval_int (\<lambda>v. 0) (dim (Var ''o'') 1 1 3 5) = Some 2 \<and> overlap_count 0 1 1 3 5 = 2"
  using overlap_volume_kernel3_input5 [of 0] by simp

text \<open>
  The claim as it was stated fails: without padding the first and the last output
  position have an overlap of 3, not 2.
\<close>

theorem overlap_volume_first_last_counterexample:
  "eval_int (\<lambda>v. 0) (dim (Var ''o'') 1 0 3 5) = Some 3
   \<and> eval_int (\<lambda>v. 2) (dim (Var ''o'') 1 0 3 5) = Some 3
   \<and> axis_overlap 0 1 0 3 5 = 3 \<and> axis_overlap 2 1 0 3 5 = 3
   \<and> overlap_count 0 1 0 3 5 = 3 \<and> overlap_count 2 1 0 3 5 = 3"
  by code_simp


section \<open>Properties of the mask normalisation\<close>

lemma collect_mask_Suc:
  "collect_mask cvt (Suc n) =
     (if cvt ! n = 2 then collect_mask cvt n OR push_bit n 1 else collect_mask cvt n)"
  by (simp add: collect_mask_def)

lemma collect_mask_bit:
  "n \<le> 32 \<Longrightarrow> bit (collect_mask cvt n) i \<longleftrightarrow> i < n \<and> cvt ! i = 2"
proof (induction n)
  case 0
  then show ?case by (simp add: collect_mask_def)
next
  case (Suc n)
  then have ih: "bit (collect_mask cvt n) i \<longleftrightarrow> i < n \<and> cvt ! i = 2" and n: "n < 32" by simp_all
  have b: "bit (push_bit n (1 :: 32 word)) i \<longleftrightarrow> i = n"
    using n by (auto simp: bit_push_bit_iff bit_1_iff bit_exp_iff)
  show ?case
    unfolding collect_mask_Suc using ih b by (auto simp: bit_or_iff less_Suc_eq)
qed

lemma dummy_fold:
  "m \<le> length d0 \<Longrightarrow>
   length (fold (dummy_step w) [0..<m] d0) = length d0
   \<and> (\<forall>j < length d0. fold (dummy_step w) [0..<m] d0 ! j =
         (if j < m \<and> bit w j then 2 else d0 ! j))"
proof (induction m)
  case 0
  then show ?case by simp
next
  case (Suc m)
  then have ih: "length (fold (dummy_step w) [0..<m] d0) = length d0"
    "\<forall>j < length d0. fold (dummy_step w) [0..<m] d0 ! j = (if j < m \<and> bit w j then 2 else d0 ! j)"
    and m: "m < length d0" by simp_all
  have b: "w AND push_bit m 1 \<noteq> 0 \<longleftrightarrow> bit w m"
    by (simp add: bit_iff_and_push_bit_not_eq_0)
  show ?case
    using ih m b by (auto simp: dummy_step_def nth_list_update less_Suc_eq)
qed

lemma dummy_dims_nth:
  "length (dummy_dims n w) = n \<and> (\<forall>j < n. dummy_dims n w ! j = (if bit w j then 2 else 1))"
  using dummy_fold [of n "replicate n 1" w]
  by (simp add: dummy_dims_def)

text \<open>
  Claim C8. For a mask over the \<open>2 + ndims\<close> axes before the reduction, the dummy
  extents are 2 at every axis whose bit is set in the mask and 1 elsewhere; when the
  reduction of the dummy extents has the rank of the canonical view (at least 3, at
  most the 32 bits of a mask), \<open>normalize_mask\<close> returns the mask whose bit \<open>i\<close> is
  set exactly for the canonical axes \<open>i\<close> at which the reduced extents still hold
  the value 2. A rank below 3 or a rank that differs from that of the view is a failed
  assertion.
\<close>

theorem normalize_mask_selects_sentinel:
  "(3 \<le> cp_ndims \<and> cp_ndims \<le> 32 \<and> 0 \<le> 2 + ndims_field
      \<and> int (length (dims_to_3d sp3d (dummy_dims (nat (2 + ndims_field)) orig_mask))) = cp_ndims \<longrightarrow>
      (\<exists>m. normalize_mask sp3d cp_ndims ndims_field orig_mask = Inr m
         \<and> (\<forall>i. bit m i \<longleftrightarrow>
               i < nat cp_ndims
               \<and> dims_to_3d sp3d (dummy_dims (nat (2 + ndims_field)) orig_mask) ! i = 2)))
   \<and> length (dummy_dims (nat (2 + ndims_field)) orig_mask) = nat (2 + ndims_field)
   \<and> (\<forall>j. j < nat (2 + ndims_field) \<longrightarrow>
         dummy_dims (nat (2 + ndims_field)) orig_mask ! j = (if bit orig_mask j then 2 else 1))
   \<and> (cp_ndims < 3 \<longrightarrow> normalize_mask sp3d cp_ndims ndims_field orig_mask = Inl Assertion_failed)
   \<and> (3 \<le> cp_ndims \<and> 0 \<le> 2 + ndims_field
        \<and> int (length (dims_to_3d sp3d (dummy_dims (nat (2 + ndims_field)) orig_mask))) \<noteq> cp_ndims \<longrightarrow>
        normalize_mask sp3d cp_ndims ndims_field orig_mask = Inl Assertion_failed)"
proof -
  have p1: "3 \<le> cp_ndims \<and> cp_ndims \<le> 32 \<and> 0 \<le> 2 + ndims_field
      \<and> int (length (dims_to_3d sp3d (dummy_dims (nat (2 + ndims_field)) orig_mask))) = cp_ndims \<longrightarrow>
      (\<exists>m. normalize_mask sp3d cp_ndims ndims_field orig_mask = Inr m
         \<and> (\<forall>i. bit m i \<longleftrightarrow>
               i < nat cp_ndims
               \<and> dims_to_3d sp3d (dummy_dims (nat (2 + ndims_field)) orig_mask) ! i = 2))"
  proof
    assume a: "3 \<le> cp_ndims \<and> cp_ndims \<le> 32 \<and> 0 \<le> 2 + ndims_field
      \<and> int (length (dims_to_3d sp3d (dummy_dims (nat (2 + ndims_field)) orig_mask))) = cp_ndims"
    then have r: "normalize_mask sp3d cp_ndims ndims_field orig_mask =
        Inr (collect_mask (dims_to_3d sp3d (dummy_dims (nat (2 + ndims_field)) orig_mask)) (nat cp_ndims))"
      by (simp add: normalize_mask_def Let_def)
    from a have "nat cp_ndims \<le> 32" by linarith
    from collect_mask_bit [OF this] r
    show "\<exists>m. normalize_mask sp3d cp_ndims ndims_field orig_mask = Inr m
         \<and> (\<forall>i. bit m i \<longleftrightarrow>
               i < nat cp_ndims
               \<and> dims_to_3d sp3d (dummy_dims (nat (2 + ndims_field)) orig_mask) ! i = 2)"
      by simp
  qed
  have p2: "length (dummy_dims (nat (2 + ndims_field)) orig_mask) = nat (2 + ndims_field)"
    using dummy_dims_nth by blast
  have p3: "\<forall>j. j < nat (2 + ndims_field) \<longrightarrow>
         dummy_dims (nat (2 + ndims_field)) orig_mask ! j = (if bit orig_mask j then 2 else 1)"
    using dummy_dims_nth by blast
  have p4: "cp_ndims < 3 \<longrightarrow> normalize_mask sp3d cp_ndims ndims_field orig_mask = Inl Assertion_failed"
    by (simp add: normalize_mask_def)
  have p5: "3 \<le> cp_ndims \<and> 0 \<le> 2 + ndims_field
        \<and> int (length (dims_to_3d sp3d (dummy_dims (nat (2 + ndims_field)) orig_mask))) \<noteq> cp_ndims \<longrightarrow>
        normalize_mask sp3d cp_ndims ndims_field orig_mask = Inl Assertion_failed"
    by (simp add: normalize_mask_def Let_def)
  show ?thesis
    by (intro conjI) (fact p1 p2 p3 p4 p5)+
qed

theorem normalize_mask_selects_sentinel_witness:
  "(3::int) \<le> 5 \<and> (5::int) \<le> 32 \<and> (0::int) \<le> 2 + 2
   \<and> dummy_dims 4 10 = [1, 2, 1, 2]
   \<and> dims_to_3d ex_sp3d (dummy_dims 4 10) = [1, 2, 1, 1, 2]
   \<and> normalize_mask ex_sp3d 5 2 10 = Inr 18
   \<and> (\<forall>i. bit (18 :: 32 word) i \<longleftrightarrow> i < 5 \<and> [1, 2, 1, 1, 2 :: int] ! i = 2)"
proof -
  have d: "dummy_dims 4 10 = [1, 2, 1, 2]" by code_simp
  have c: "dims_to_3d ex_sp3d (dummy_dims 4 10) = [1, 2, 1, 1, 2]" by code_simp
  have n: "normalize_mask ex_sp3d 5 2 10 = Inr 18" by code_simp
  have h: "(3::int) \<le> 5 \<and> (5::int) \<le> 32 \<and> (0::int) \<le> 2 + 2
      \<and> int (length (dims_to_3d ex_sp3d (dummy_dims (nat (2 + 2)) 10))) = 5"
    using c by simp
  from normalize_mask_selects_sentinel [of 5 2 ex_sp3d 10, THEN conjunct1, rule_format, OF h] n c
  have b: "\<forall>i. bit (18 :: 32 word) i \<longleftrightarrow> i < 5 \<and> [1, 2, 1, 1, 2 :: int] ! i = 2"
    by simp
  from d c n b show ?thesis by simp
qed

end
